theory Spec2Isabelle
  imports Main "HOL-Library.Word"
begin

unbundle bit_operations_syntax

section \<open>The log writer of db/log_writer.cc\<close>

text \<open>
  The write path of the log: \<open>Writer::Writer\<close>, \<open>Writer::AddRecord\<close> and
  \<open>Writer::EmitPhysicalRecord\<close>. A \<open>char\<close> is an 8-bit word, a \<open>uint32_t\<close> a 32-bit
  word. A \<open>Slice\<close> is the list of its bytes; its \<open>size()\<close> is the length of the list.
\<close>

type_synonym byte = "8 word"
type_synonym uint32 = "32 word"

subsection \<open>Constants of the log format\<close>

text \<open>
  Modelled from the spec: db/log_format.h is not among the sources. The spec gives the
  block size 32768, the header size 7 (checksum 4, length 2, type 1), and the type tags
  Full = 1, First = 2, Middle = 3, Last = 4, with 0 reserved and a checksum table of 5
  entries indexed \<open>0..kMaxRecordType\<close>.
\<close>

datatype RecordType = kZeroType | kFullType | kFirstType | kMiddleType | kLastType

fun type_value :: "RecordType \<Rightarrow> nat" where
  "type_value kZeroType = 0"
| "type_value kFullType = 1"
| "type_value kFirstType = 2"
| "type_value kMiddleType = 3"
| "type_value kLastType = 4"

definition kMaxRecordType :: nat where
  "kMaxRecordType = type_value kLastType"

definition kBlockSize :: int where
  "kBlockSize = 32768"

definition kHeaderSize :: int where
  "kHeaderSize = 4 + 1 + 2"

subsection \<open>Checksums and fixed-width coding\<close>

text \<open>
  Modelled from the spec: util/crc32c.h, util/crc32c.cc and util/coding.h are not among
  the sources. The spec asks for the CRC-32 of the Castagnoli polynomial (crc32c) and for
  a masking transform "rotate + add a constant". \<open>crc32c_Extend\<close> is the byte-wise
  reflected CRC with the Castagnoli polynomial \<open>0x82f63b78\<close>, the running value
  complemented on entry and on exit; \<open>crc32c_Value\<close> is \<open>crc32c_Extend\<close> from 0;
  \<open>crc32c_Mask\<close> rotates right by 15 bits and adds \<open>0xa282ead8\<close>.
  \<open>EncodeFixed32\<close> writes the four bytes of a 32-bit value, least significant first.
\<close>

definition crc_shift :: "uint32 \<Rightarrow> uint32" where
  "crc_shift r = (if bit r 0 then drop_bit 1 r XOR 0x82f63b78 else drop_bit 1 r)"

definition crc_table :: "uint32 \<Rightarrow> uint32" where
  "crc_table c = (crc_shift ^^ 8) c"

definition crc_byte :: "byte \<Rightarrow> uint32 \<Rightarrow> uint32" where
  "crc_byte b l = crc_table ((l AND 0xff) XOR ucast b) XOR drop_bit 8 l"

definition crc32c_Extend :: "uint32 \<Rightarrow> byte list \<Rightarrow> uint32" where
  "crc32c_Extend init_crc data = fold crc_byte data (init_crc XOR 0xffffffff) XOR 0xffffffff"

definition crc32c_Value :: "byte list \<Rightarrow> uint32" where
  "crc32c_Value data = crc32c_Extend 0 data"

definition kMaskDelta :: uint32 where
  "kMaskDelta = 0xa282ead8"

definition crc32c_Mask :: "uint32 \<Rightarrow> uint32" where
  "crc32c_Mask crc = (drop_bit 15 crc OR push_bit 17 crc) + kMaskDelta"

definition crc32c_Unmask :: "uint32 \<Rightarrow> uint32" where
  "crc32c_Unmask masked_crc =
     (let rot = masked_crc - kMaskDelta in drop_bit 17 rot OR push_bit 15 rot)"

definition EncodeFixed32 :: "uint32 \<Rightarrow> byte list" where
  "EncodeFixed32 v =
     [ucast (v AND 0xff), ucast (drop_bit 8 v AND 0xff),
      ucast (drop_bit 16 v AND 0xff), ucast (drop_bit 24 v AND 0xff)]"

definition DecodeFixed32 :: "byte list \<Rightarrow> uint32" where
  "DecodeFixed32 bs =
     ucast (bs ! 0) OR push_bit 8 (ucast (bs ! 1)) OR
     push_bit 16 (ucast (bs ! 2)) OR push_bit 24 (ucast (bs ! 3))"

subsection \<open>The destination file\<close>

text \<open>
  \<open>WritableFile\<close> (leveldb/env.h) is the external append-only file: \<open>Append\<close> and
  \<open>Flush\<close> each return a \<open>Status\<close>. The writer's control flow depends on nothing but
  these results, so the file is modelled by the outcomes it is going to give, one per
  call in call order (\<open>script\<close>; a call beyond the script succeeds), and by the history
  of the calls made with their results (\<open>calls\<close>, oldest first). Of a \<open>Status\<close> the
  writer only asks \<open>ok()\<close>: it is \<open>OK\<close> or an error with its message.
\<close>

datatype Status = OK | IOError string

datatype file_call = AppendCall "byte list" | FlushCall

record WritableFile =
  calls :: "(file_call \<times> Status) list"
  script :: "Status list"

definition perform :: "file_call \<Rightarrow> WritableFile \<Rightarrow> Status \<times> WritableFile" where
  "perform c f =
     (let s = (case script f of [] \<Rightarrow> OK | x # _ \<Rightarrow> x)
      in (s, f\<lparr>calls := calls f @ [(c, s)], script := tl (script f)\<rparr>))"

definition Append :: "byte list \<Rightarrow> WritableFile \<Rightarrow> Status \<times> WritableFile" where
  "Append data f = perform (AppendCall data) f"

definition Flush :: "WritableFile \<Rightarrow> Status \<times> WritableFile" where
  "Flush f = perform FlushCall f"

text \<open>The bytes of the file: those of the appends that succeeded, in call order.\<close>

fun appended :: "(file_call \<times> Status) list \<Rightarrow> byte list" where
  "appended [] = []"
| "appended ((AppendCall data, OK) # cs) = data @ appended cs"
| "appended (_ # cs) = appended cs"

subsection \<open>The writer\<close>

text \<open>
  The fields of \<open>Writer\<close>: \<open>dest_\<close>, \<open>block_offset_\<close> (an \<open>int\<close>) and the table
  \<open>type_crc_\<close>, an array of \<open>kMaxRecordType + 1\<close> checksums indexed by the type tag,
  here a function on \<open>RecordType\<close>. \<open>block_offset\<close> is a mathematical integer: from
  an offset in \<open>[0, kBlockSize]\<close>, the only ones a writer reaches, no operation of the
  code leaves the range of a 32-bit \<open>int\<close>, and the sizes (\<open>size_t\<close>) are natural
  numbers. The assertions of the code are kept: a failed \<open>assert\<close> aborts the run. The
  assertion \<open>kHeaderSize == 7\<close> of line 51 compares two constants and always holds.
\<close>

record Writer =
  dest :: WritableFile
  block_offset :: int
  type_crc :: "RecordType \<Rightarrow> uint32"

datatype abort = AssertionFailed

text \<open>The constructor (lines 15-23): offset 0 and the checksum of each one-byte tag.\<close>

definition new_Writer :: "WritableFile \<Rightarrow> Writer" where
  "new_Writer d =
     \<lparr>dest = d, block_offset = 0,
      type_crc = (\<lambda>t. crc32c_Value [of_nat (type_value t)])\<rparr>"

text \<open>
  \<open>EmitPhysicalRecord(t, ptr, n)\<close> (lines 93-127); the pair \<open>(ptr, n)\<close> is the list
  \<open>data\<close> of the \<open>n\<close> bytes at \<open>ptr\<close>. The block offset is advanced after the
  calls on the file, whatever their status.
\<close>

definition EmitPhysicalRecord ::
  "Writer \<Rightarrow> RecordType \<Rightarrow> byte list \<Rightarrow> abort + (Status \<times> Writer)" where
  "EmitPhysicalRecord w t data =
     (let n = length data in
      if \<not> n \<le> 0xffff then Inl AssertionFailed
      else if \<not> block_offset w + kHeaderSize + int n \<le> kBlockSize then Inl AssertionFailed
      else
        let crc = crc32c_Mask (crc32c_Extend (type_crc w t) data);
            buf = EncodeFixed32 crc @
                  [of_nat (n AND 0xff), of_nat (drop_bit 8 n), of_nat (type_value t)];
            (s1, d1) = Append buf (dest w);
            (s3, d3) =
              (if s1 = OK then
                 (let (s2, d2) = Append data d1
                  in if s2 = OK then Flush d2 else (s2, d2))
               else (s1, d1))
        in Inr (s3, w\<lparr>dest := d3, block_offset := block_offset w + kHeaderSize + int n\<rparr>))"

text \<open>
  The loop of \<open>AddRecord\<close> (lines 39-89), one call per iteration: \<open>ptr\<close> is the data
  not yet written (\<open>left\<close> is its length) and \<open>begin\<close> the flag of the first iteration.
  The status of the trailer's \<open>Append\<close> (line 52) is dropped, as in the code.
\<close>

function AddRecord_loop :: "Writer \<Rightarrow> byte list \<Rightarrow> bool \<Rightarrow> abort + (Status \<times> Writer)" where
  "AddRecord_loop w ptr begin =
     (let left = length ptr;
          leftover = kBlockSize - block_offset w
      in
      if \<not> leftover \<ge> 0 then Inl AssertionFailed
      else
        let w1 = (if leftover < kHeaderSize then
                    w\<lparr>dest := (if leftover > 0
                                then snd (Append (take (nat leftover) (replicate 6 0)) (dest w))
                                else dest w),
                      block_offset := 0\<rparr>
                  else w)
        in
        if \<not> kBlockSize - block_offset w1 - kHeaderSize \<ge> 0 then Inl AssertionFailed
        else
          let avail = nat (kBlockSize - block_offset w1 - kHeaderSize);
              fragment_length = (if left < avail then left else avail);
              end = (left = fragment_length);
              type = (if begin \<and> end then kFullType
                      else if begin then kFirstType
                      else if end then kLastType
                      else kMiddleType)
          in
          case EmitPhysicalRecord w1 type (take fragment_length ptr) of
            Inl a \<Rightarrow> Inl a
          | Inr (s, w2) \<Rightarrow>
              if s = OK \<and> left - fragment_length > 0
              then AddRecord_loop w2 (drop fragment_length ptr) False
              else Inr (s, w2))"
  by pat_completeness auto

termination AddRecord_loop
proof (relation "measure (\<lambda>(w, ptr, b).
          2 * length ptr + (if block_offset w = kBlockSize - kHeaderSize then 1 else 0))",
       goal_cases)
  case 1
  then show ?case by simp
next
  case (2 w ptr b left leftover w1 avail fragment_length e type x2 s w2)
  from 2(10,11)
  have "block_offset w2 = block_offset w1 + kHeaderSize + int (length (take fragment_length ptr))"
    by (auto simp: EmitPhysicalRecord_def Let_def split: if_splits prod.splits)
  moreover from 2(1,7) have "fragment_length \<le> length ptr"
    by simp
  ultimately have off: "block_offset w2 = block_offset w1 + kHeaderSize + int fragment_length"
    by simp
  from 2(1,12) have more: "fragment_length < length ptr"
    by simp
  show ?case
  proof (cases "fragment_length = 0")
    case True
    with more 2(1,7) have "avail = 0"
      by (simp split: if_splits)
    with 2(5,6) have w1: "block_offset w1 = kBlockSize - kHeaderSize"
      by simp
    with 2(4) have "block_offset w = kBlockSize - kHeaderSize"
      by (simp add: kBlockSize_def kHeaderSize_def split: if_splits)
    with w1 off True more show ?thesis
      by (simp add: kHeaderSize_def)
  next
    case False
    with more show ?thesis
      by auto
  qed
qed

declare AddRecord_loop.simps [simp del]

text \<open>\<open>AddRecord(slice)\<close> (lines 28-91): the loop over the bytes \<open>data\<close> of the slice, entered
  with \<open>begin = true\<close>.\<close>

definition AddRecord :: "Writer \<Rightarrow> byte list \<Rightarrow> abort + (Status \<times> Writer)" where
  "AddRecord w data = AddRecord_loop w data True"

subsection \<open>Reading the log back\<close>

text \<open>
  Modelled from the spec: the reader of the log (db/log_reader.cc) is not among the
  sources; what follows is the format of section 6 of the spec, read back. The fields of
  a 7-byte header: the masked checksum in bytes 0-3 and the payload length in bytes 4-5,
  both little-endian, and the type tag in byte 6. Tag 0 and tags beyond
  \<open>kMaxRecordType\<close> are rejected.
\<close>

definition header_crc :: "byte list \<Rightarrow> uint32" where
  "header_crc h = DecodeFixed32 (take 4 h)"

definition header_length :: "byte list \<Rightarrow> nat" where
  "header_length h = unat (h ! 4) + 256 * unat (h ! 5)"

definition header_type :: "byte list \<Rightarrow> byte" where
  "header_type h = h ! 6"

definition record_type_of :: "byte \<Rightarrow> RecordType option" where
  "record_type_of b =
     (if b = 1 then Some kFullType
      else if b = 2 then Some kFirstType
      else if b = 3 then Some kMiddleType
      else if b = 4 then Some kLastType
      else None)"

text \<open>
  The stored checksum of a header is right for a payload when, unmasked, it is the crc32c
  of the type byte followed by the payload.
\<close>

definition checksum_ok :: "byte list \<Rightarrow> byte list \<Rightarrow> bool" where
  "checksum_ok h payload \<longleftrightarrow>
     crc32c_Unmask (header_crc h) = crc32c_Value (header_type h # payload)"

text \<open>
  Modelled from the spec: a reader of the format of section 6.
  \<open>read_records pos bs\<close> parses the bytes \<open>bs\<close> of a file from offset \<open>pos\<close> of
  the current block into the fragments \<open>(type, payload)\<close>.
  With fewer than 7 bytes left in the block, the rest of the block must be zero padding
  and reading goes on at offset 0 of the next block. Running out of bytes before a whole
  header is the end of the file. \<open>None\<close> reports corruption: padding that is not zero,
  a reserved type tag, a record that crosses the end of its block or of the file, or a
  checksum that does not match.
\<close>

function read_records :: "nat \<Rightarrow> byte list \<Rightarrow> (RecordType \<times> byte list) list option" where
  "read_records pos bs =
     (if bs = [] then Some []
      else if nat kBlockSize - pos < nat kHeaderSize then
        (let pad = nat kBlockSize - pos in
         if take pad bs \<noteq> replicate (length (take pad bs)) 0 then None
         else if length bs \<le> pad \<and> 0 < pad then Some []
         else read_records 0 (drop pad bs))
      else if length bs < nat kHeaderSize then Some []
      else
        (let h = take (nat kHeaderSize) bs;
             n = header_length h;
             payload = take n (drop (nat kHeaderSize) bs)
         in case record_type_of (header_type h) of
              None \<Rightarrow> None
            | Some t \<Rightarrow>
                if nat kBlockSize < pos + nat kHeaderSize + n then None
                else if length bs < nat kHeaderSize + n then None
                else if \<not> checksum_ok h payload then None
                else map_option ((#) (t, payload))
                       (read_records (pos + nat kHeaderSize + n)
                          (drop (nat kHeaderSize + n) bs))))"
  by pat_completeness auto
termination
  by (relation "measure (\<lambda>(pos, bs).
        2 * length bs + (if nat kBlockSize - pos < nat kHeaderSize then 1 else 0))")
     (auto simp: kBlockSize_def kHeaderSize_def)

declare read_records.simps [simp del]

subsection \<open>Observing one call on the file\<close>

text \<open>
  What a call of \<open>AddRecord\<close> did is read off the history of the file. The headers
  are the appends of 7 bytes or more that stand where a record starts: a shorter append
  there is a trailer (at most 6 bytes), and the call after a header, if any, is the
  append of the payload.
\<close>

definition new_calls :: "Writer \<Rightarrow> Writer \<Rightarrow> (file_call \<times> Status) list" where
  "new_calls w w' = drop (length (calls (dest w))) (calls (dest w'))"

fun emitted_headers :: "(file_call \<times> Status) list \<Rightarrow> byte list list" where
  "emitted_headers [] = []"
| "emitted_headers ((FlushCall, s) # cs) = emitted_headers cs"
| "emitted_headers [(AppendCall d, s)] = (if length d < 7 then [] else [d])"
| "emitted_headers ((AppendCall d, s) # c # cs) =
     (if length d < 7 then emitted_headers (c # cs) else d # emitted_headers cs)"

subsection \<open>One iteration of the loop\<close>

text \<open>
  Names for the parts of one iteration of the loop of \<open>AddRecord\<close>, used to state what
  an iteration does: the writer after the switch to a new block (lines 42-56), the
  fragment length (lines 61-63), the fragment type (lines 65-80) and the header that
  \<open>EmitPhysicalRecord\<close> builds (lines 99-112). The lemmas \<open>loop_step\<close> and
  \<open>Emit_cases\<close> below derive them from the definitions above.
\<close>

definition after_trailer :: "Writer \<Rightarrow> Writer" where
  "after_trailer w =
     (if kBlockSize - block_offset w < kHeaderSize then
        w\<lparr>dest := (if 0 < kBlockSize - block_offset w
                    then snd (Append (replicate (nat (kBlockSize - block_offset w)) 0) (dest w))
                    else dest w),
          block_offset := 0\<rparr>
      else w)"

definition frag_len :: "Writer \<Rightarrow> byte list \<Rightarrow> nat" where
  "frag_len w ptr =
     min (length ptr) (nat (kBlockSize - block_offset (after_trailer w) - kHeaderSize))"

definition frag_type :: "bool \<Rightarrow> bool \<Rightarrow> RecordType" where
  "frag_type b e =
     (if b \<and> e then kFullType else if b then kFirstType
      else if e then kLastType else kMiddleType)"

definition record_header :: "Writer \<Rightarrow> RecordType \<Rightarrow> byte list \<Rightarrow> byte list" where
  "record_header w t data =
     EncodeFixed32 (crc32c_Mask (crc32c_Extend (type_crc w t) data)) @
     [of_nat (length data AND 0xff), of_nat (drop_bit 8 (length data)), of_nat (type_value t)]"

text \<open>The call that writes the trailer, when the iteration writes one.\<close>

definition trailer_calls :: "Writer \<Rightarrow> (file_call \<times> Status) list" where
  "trailer_calls w =
     (if kBlockSize - block_offset w < kHeaderSize \<and> 0 < kBlockSize - block_offset w
      then [(AppendCall (replicate (nat (kBlockSize - block_offset w)) 0),
             fst (Append (replicate (nat (kBlockSize - block_offset w)) 0) (dest w)))]
      else [])"

text \<open>The offset a call leaves the writer at, when the call returns.\<close>

definition offset_after :: "abort + (Status \<times> Writer) \<Rightarrow> int option" where
  "offset_after r = (case r of Inl a \<Rightarrow> None | Inr (s, w) \<Rightarrow> Some (block_offset w))"

section \<open>Properties\<close>

subsection \<open>Checksums and coding\<close>

lemma Extend_Value: "crc32c_Extend (crc32c_Value a) b = crc32c_Value (a @ b)"
  by (simp add: crc32c_Extend_def crc32c_Value_def xor.assoc)

lemma Extend_Nil: "crc32c_Extend c [] = c"
  by (simp add: crc32c_Extend_def xor.assoc)

lemma ff_mask: "(0xff :: 'a::len word) = mask 8"
  by (simp add: mask_eq_exp_minus_1)

lemma byte_of: "(ucast (ucast (w AND 0xff :: uint32) :: byte) :: uint32) = take_bit 8 w"
  unfolding ff_mask
  by (rule bit_word_eqI) (auto simp add: bit_simps)

lemma join4: "(take_bit 8 v OR push_bit 8 (take_bit 8 (drop_bit 8 v)) OR
     push_bit 16 (take_bit 8 (drop_bit 16 v)) OR push_bit 24 (take_bit 8 (drop_bit 24 v))) = (v::uint32)"
proof (rule bit_word_eqI)
  fix n :: nat
  assume "n < LENGTH(32)"
  then have "n < 32"
    by simp
  then have "n < 8 \<or> (\<exists>m<8. n = 8 + m) \<or> (\<exists>m<8. n = 16 + m) \<or> (\<exists>m<8. n = 24 + m)"
    by presburger
  then consider "n < 8" | m where "n = 8 + m" "m < 8" | m where "n = 16 + m" "m < 8"
    | m where "n = 24 + m" "m < 8"
    by blast
  then show "bit (take_bit 8 v OR push_bit 8 (take_bit 8 (drop_bit 8 v)) OR
     push_bit 16 (take_bit 8 (drop_bit 16 v)) OR push_bit 24 (take_bit 8 (drop_bit 24 v))) n = bit v n"
    by cases (simp_all add: bit_simps)
qed

lemma Decode_Encode: "DecodeFixed32 (EncodeFixed32 v) = v"
  unfolding DecodeFixed32_def EncodeFixed32_def
  by (simp add: byte_of join4)

lemma rot: "drop_bit 17 (push_bit 17 c) OR push_bit 15 (drop_bit 15 c) = (c::uint32)"
proof (rule bit_word_eqI)
  fix n :: nat
  assume "n < LENGTH(32)"
  then have "n < 32"
    by simp
  then have "n < 15 \<or> (\<exists>m<17. n = 15 + m)"
    by presburger
  then consider "n < 15" | m where "n = 15 + m" "m < 17"
    by blast
  then show "bit (drop_bit 17 (push_bit 17 c) OR push_bit 15 (drop_bit 15 c)) n = bit c n"
    by cases (simp_all add: bit_simps)
qed

lemma Unmask_Mask: "crc32c_Unmask (crc32c_Mask c) = c"
  unfolding crc32c_Unmask_def crc32c_Mask_def Let_def
  by (simp add: rot)

lemma len_lo: "n AND 0xff = (n::nat) mod 256"
  using take_bit_eq_mask[of 8 n] by (simp add: take_bit_eq_mod mask_eq_exp_minus_1)

lemma len_roundtrip:
  "n \<le> 0xffff \<Longrightarrow> unat (of_nat (n AND 0xff) :: byte) + 256 * unat (of_nat (drop_bit 8 n) :: byte) = n"
  by (simp add: len_lo drop_bit_eq_div unat_of_nat take_bit_eq_mod)

lemma crc_table_unfold:
  "crc_table c =
     crc_shift (crc_shift (crc_shift (crc_shift
       (crc_shift (crc_shift (crc_shift (crc_shift c)))))))"
  by (simp add: crc_table_def eval_nat_numeral)

subsection \<open>The file and one physical record\<close>

lemma length_record_header: "length (record_header w t data) = 7"
  by (simp add: record_header_def EncodeFixed32_def)

lemma perform_calls: "calls (snd (perform c f)) = calls f @ [(c, fst (perform c f))]"
  by (simp add: perform_def Let_def)

lemma perform_script: "script (snd (perform c f)) = tl (script f)"
  by (simp add: perform_def Let_def)

lemma perform_status: "fst (perform c f) = (case script f of [] \<Rightarrow> OK | x # _ \<Rightarrow> x)"
  by (simp add: perform_def Let_def)

lemma Emit_cases:
  assumes "length data \<le> 0xffff"
    and "block_offset w + kHeaderSize + int (length data) \<le> kBlockSize"
  shows "\<exists>s d cs. EmitPhysicalRecord w t data =
            Inr (s, w\<lparr>dest := d,
                      block_offset := block_offset w + kHeaderSize + int (length data)\<rparr>) \<and>
          calls d = calls (dest w) @ cs \<and>
          script d = drop (length cs) (script (dest w)) \<and>
          (cs = [(AppendCall (record_header w t data), s)] \<and> s \<noteq> OK \<or>
           cs = [(AppendCall (record_header w t data), OK), (AppendCall data, s)] \<and> s \<noteq> OK \<or>
           cs = [(AppendCall (record_header w t data), OK), (AppendCall data, OK), (FlushCall, s)])"
proof -
  obtain s1 d1 where a1: "Append (record_header w t data) (dest w) = (s1, d1)"
    by fastforce
  obtain s2 d2 where a2: "Append data d1 = (s2, d2)"
    by fastforce
  obtain s3 d3 where a3: "Flush d2 = (s3, d3)"
    by fastforce
  have c1: "calls d1 = calls (dest w) @ [(AppendCall (record_header w t data), s1)]"
    and r1: "script d1 = drop 1 (script (dest w))"
    using a1 perform_calls[of "AppendCall (record_header w t data)" "dest w"]
      perform_script[of "AppendCall (record_header w t data)" "dest w"]
    by (simp_all add: Append_def drop_Suc)
  have c2: "calls d2 = calls d1 @ [(AppendCall data, s2)]"
    and r2: "script d2 = drop 1 (script d1)"
    using a2 perform_calls[of "AppendCall data" d1] perform_script[of "AppendCall data" d1]
    by (simp_all add: Append_def drop_Suc)
  have c3: "calls d3 = calls d2 @ [(FlushCall, s3)]"
    and r3: "script d3 = drop 1 (script d2)"
    using a3 perform_calls[of FlushCall d2] perform_script[of FlushCall d2]
    by (simp_all add: Flush_def drop_Suc)
  have e: "EmitPhysicalRecord w t data =
    Inr (if s1 = OK then (if s2 = OK then s3 else s2) else s1,
         w\<lparr>dest := (if s1 = OK then (if s2 = OK then d3 else d2) else d1),
           block_offset := block_offset w + kHeaderSize + int (length data)\<rparr>)"
    using assms a1 a2 a3
    by (simp add: EmitPhysicalRecord_def Let_def record_header_def)
  let ?h = "record_header w t data"
  show ?thesis
  proof (cases "s1 = OK")
    case False
    with e c1 r1 show ?thesis
      by (intro exI[of _ s1] exI[of _ d1] exI[of _ "[(AppendCall ?h, s1)]"]) simp
  next
    case s1: True
    show ?thesis
    proof (cases "s2 = OK")
      case False
      with s1 e c1 c2 r1 r2 show ?thesis
        by (intro exI[of _ s2] exI[of _ d2]
            exI[of _ "[(AppendCall ?h, OK), (AppendCall data, s2)]"]) simp
    next
      case True
      with s1 e c1 c2 c3 r1 r2 r3 show ?thesis
        by (intro exI[of _ s3] exI[of _ d3]
            exI[of _ "[(AppendCall ?h, OK), (AppendCall data, OK), (FlushCall, s3)]"]) simp
    qed
  qed
qed

subsection \<open>The loop, one iteration at a time\<close>

lemma after_trailer_offset:
  "0 \<le> block_offset w \<Longrightarrow> block_offset w \<le> kBlockSize \<Longrightarrow>
   0 \<le> block_offset (after_trailer w) \<and> block_offset (after_trailer w) \<le> kBlockSize - kHeaderSize"
  by (simp add: after_trailer_def kBlockSize_def kHeaderSize_def)

lemma loop_step:
  assumes "0 \<le> block_offset w" "block_offset w \<le> kBlockSize"
  shows "AddRecord_loop w ptr b =
    (case EmitPhysicalRecord (after_trailer w) (frag_type b (frag_len w ptr = length ptr))
            (take (frag_len w ptr) ptr) of
       Inl a \<Rightarrow> Inl a
     | Inr (s, w2) \<Rightarrow>
         if s = OK \<and> frag_len w ptr < length ptr
         then AddRecord_loop w2 (drop (frag_len w ptr) ptr) False
         else Inr (s, w2))"
proof -
  have t: "take (nat (kBlockSize - block_offset w)) (replicate 6 (0::byte)) =
           replicate (nat (kBlockSize - block_offset w)) 0"
    if "kBlockSize - block_offset w < kHeaderSize"
    using that by (simp add: kHeaderSize_def min_def)
  have w1: "(if kBlockSize - block_offset w < kHeaderSize then
                    w\<lparr>dest := (if kBlockSize - block_offset w > 0
                                then snd (Append (take (nat (kBlockSize - block_offset w)) (replicate 6 0)) (dest w))
                                else dest w),
                      block_offset := 0\<rparr>
                  else w) = after_trailer w"
    using t by (simp add: after_trailer_def)
  have a: "0 \<le> kBlockSize - block_offset (after_trailer w) - kHeaderSize"
    using after_trailer_offset[OF assms] by simp
  have a2: "kHeaderSize \<le> kBlockSize - block_offset (after_trailer w)"
    using after_trailer_offset[OF assms] by simp
  have m: "(if length ptr < nat (kBlockSize - block_offset (after_trailer w) - kHeaderSize)
            then length ptr else nat (kBlockSize - block_offset (after_trailer w) - kHeaderSize))
           = frag_len w ptr"
    by (simp add: frag_len_def min_def)
  have e: "(length ptr = frag_len w ptr) = (frag_len w ptr = length ptr)"
    by auto
  have l: "(0 < length ptr - frag_len w ptr) = (frag_len w ptr < length ptr)"
    by auto
  show ?thesis
    apply (subst AddRecord_loop.simps)
    apply (unfold Let_def w1 m)
    apply (simp only: e l a a2 assms frag_type_def[symmetric] diff_ge_0_iff_ge not_not if_True if_False simp_thms)
    done
qed

lemma loop_induct [case_names step]:
  assumes step: "\<And>w ptr b.
    (\<And>w2. \<lbrakk>0 \<le> block_offset w; block_offset w \<le> kBlockSize;
           EmitPhysicalRecord (after_trailer w) (frag_type b (frag_len w ptr = length ptr))
             (take (frag_len w ptr) ptr) = Inr (OK, w2);
           frag_len w ptr < length ptr\<rbrakk>
          \<Longrightarrow> P w2 (drop (frag_len w ptr) ptr) False)
    \<Longrightarrow> P w ptr b"
  shows "P w ptr b"
proof (induction w ptr b rule: AddRecord_loop.induct)
  case (1 w ptr b)
  show ?case
  proof (rule step)
    fix w2
    assume v: "0 \<le> block_offset w" "block_offset w \<le> kBlockSize"
      and e: "EmitPhysicalRecord (after_trailer w) (frag_type b (frag_len w ptr = length ptr))
             (take (frag_len w ptr) ptr) = Inr (OK, w2)"
      and l: "frag_len w ptr < length ptr"
    have t: "take (nat (kBlockSize - block_offset w)) (replicate 6 (0::byte)) =
             replicate (nat (kBlockSize - block_offset w)) 0"
      if "kBlockSize - block_offset w < kHeaderSize"
      using that by (simp add: kHeaderSize_def min_def)
    have w1: "(if kBlockSize - block_offset w < kHeaderSize then
                    w\<lparr>dest := (if kBlockSize - block_offset w > 0
                                then snd (Append (take (nat (kBlockSize - block_offset w)) (replicate 6 0)) (dest w))
                                else dest w),
                      block_offset := 0\<rparr>
                  else w) = after_trailer w"
      using t by (simp add: after_trailer_def)
    have m: "(if length ptr < nat (kBlockSize - block_offset (after_trailer w) - kHeaderSize)
              then length ptr else nat (kBlockSize - block_offset (after_trailer w) - kHeaderSize))
             = frag_len w ptr"
      by (simp add: frag_len_def min_def)
    have ft: "(if b \<and> length ptr = frag_len w ptr then kFullType
               else if b then kFirstType
               else if length ptr = frag_len w ptr then kLastType else kMiddleType)
              = frag_type b (frag_len w ptr = length ptr)"
      by (auto simp: frag_type_def)
    show "P w2 (drop (frag_len w ptr) ptr) False"
    proof (rule "1.IH"[OF refl refl _ refl _ refl refl refl refl _ refl, unfolded w1 m ft])
      show "\<not> \<not> 0 \<le> kBlockSize - block_offset w"
        using v by simp
      show "\<not> \<not> 0 \<le> kBlockSize - block_offset (after_trailer w) - kHeaderSize"
        using after_trailer_offset[OF v] by simp
      show "EmitPhysicalRecord (after_trailer w) (frag_type b (frag_len w ptr = length ptr))
             (take (frag_len w ptr) ptr) = Inr (OK, w2)"
        by (rule e)
      show "OK = OK \<and> 0 < length ptr - frag_len w ptr"
        using l by simp
    qed
  qed
qed

lemma after_trailer_calls: "calls (dest (after_trailer w)) = calls (dest w) @ trailer_calls w"
  by (simp add: after_trailer_def trailer_calls_def Append_def perform_calls)

lemma after_trailer_script:
  "script (dest (after_trailer w)) = drop (length (trailer_calls w)) (script (dest w))"
  by (simp add: after_trailer_def trailer_calls_def Append_def perform_script drop_Suc)

lemma after_trailer_type_crc: "type_crc (after_trailer w) = type_crc w"
  by (simp add: after_trailer_def)

lemma frag_len_le: "frag_len w ptr \<le> length ptr"
  by (simp add: frag_len_def)

lemma frag_len_fits:
  assumes "0 \<le> block_offset w" "block_offset w \<le> kBlockSize"
  shows "block_offset (after_trailer w) + kHeaderSize + int (frag_len w ptr) \<le> kBlockSize"
    and "frag_len w ptr \<le> 32761"
  using after_trailer_offset[OF assms]
  by (auto simp add: frag_len_def kBlockSize_def kHeaderSize_def min_def)

lemma loop_iteration:
  fixes w :: Writer and ptr :: "byte list" and b :: bool
  assumes v: "0 \<le> block_offset w" "block_offset w \<le> kBlockSize"
  defines "n \<equiv> frag_len w ptr"
  defines "t \<equiv> frag_type b (frag_len w ptr = length ptr)"
  defines "h \<equiv> record_header (after_trailer w) t (take n ptr)"
  shows "\<exists>s w2 cs.
      EmitPhysicalRecord (after_trailer w) t (take n ptr) = Inr (s, w2) \<and>
      block_offset w2 = block_offset (after_trailer w) + kHeaderSize + int n \<and>
      type_crc w2 = type_crc w \<and>
      calls (dest w2) = calls (dest w) @ trailer_calls w @ cs \<and>
      script (dest w2) = drop (length (trailer_calls w @ cs)) (script (dest w)) \<and>
      (cs = [(AppendCall h, s)] \<and> s \<noteq> OK \<or>
       cs = [(AppendCall h, OK), (AppendCall (take n ptr), s)] \<and> s \<noteq> OK \<or>
       cs = [(AppendCall h, OK), (AppendCall (take n ptr), OK), (FlushCall, s)]) \<and>
      AddRecord_loop w ptr b =
        (if s = OK \<and> n < length ptr then AddRecord_loop w2 (drop n ptr) False
         else Inr (s, w2))"
proof -
  have len: "length (take n ptr) = n"
    using frag_len_le[of w ptr] by (simp add: n_def)
  have "length (take n ptr) \<le> 0xffff"
    using frag_len_fits(2)[OF v, of ptr] len by (simp add: n_def)
  moreover have "block_offset (after_trailer w) + kHeaderSize + int (length (take n ptr))
      \<le> kBlockSize"
    using frag_len_fits(1)[OF v, of ptr] len by (simp add: n_def)
  ultimately obtain s d cs where
    e: "EmitPhysicalRecord (after_trailer w) t (take n ptr) =
          Inr (s, (after_trailer w)\<lparr>dest := d,
                 block_offset := block_offset (after_trailer w) + kHeaderSize +
                   int (length (take n ptr))\<rparr>)"
    and c: "calls d = calls (dest (after_trailer w)) @ cs"
    and r: "script d = drop (length cs) (script (dest (after_trailer w)))"
    and k: "cs = [(AppendCall h, s)] \<and> s \<noteq> OK \<or>
       cs = [(AppendCall h, OK), (AppendCall (take n ptr), s)] \<and> s \<noteq> OK \<or>
       cs = [(AppendCall h, OK), (AppendCall (take n ptr), OK), (FlushCall, s)]"
    using Emit_cases[of "take n ptr" "after_trailer w" t] unfolding h_def by blast
  let ?w2 = "(after_trailer w)\<lparr>dest := d,
                 block_offset := block_offset (after_trailer w) + kHeaderSize +
                   int (length (take n ptr))\<rparr>"
  have "AddRecord_loop w ptr b =
        (if s = OK \<and> n < length ptr then AddRecord_loop ?w2 (drop n ptr) False
         else Inr (s, ?w2))"
    using loop_step[OF v, of ptr b] e by (simp add: n_def t_def)
  moreover have "script (dest ?w2) = drop (length (trailer_calls w @ cs)) (script (dest w))"
    using r by (simp add: after_trailer_script add.commute)
  ultimately show ?thesis
    using e c k len
    by (intro exI[of _ s] exI[of _ ?w2] exI[of _ cs])
       (simp add: after_trailer_calls after_trailer_type_crc)
qed

lemma loop_returns:
  "0 \<le> block_offset w \<Longrightarrow> block_offset w \<le> kBlockSize \<Longrightarrow>
   \<exists>s w' cs. AddRecord_loop w ptr b = Inr (s, w') \<and>
     0 \<le> block_offset w' \<and> block_offset w' \<le> kBlockSize \<and>
     type_crc w' = type_crc w \<and> calls (dest w') = calls (dest w) @ cs"
proof (induction w ptr b rule: loop_induct)
  case (step w ptr b)
  note v = step.prems
  from loop_iteration[OF v, where ptr = ptr and b = b] obtain s w2 cs where
    e: "EmitPhysicalRecord (after_trailer w) (frag_type b (frag_len w ptr = length ptr))
          (take (frag_len w ptr) ptr) = Inr (s, w2)"
    and o: "block_offset w2 = block_offset (after_trailer w) + kHeaderSize + int (frag_len w ptr)"
    and tc: "type_crc w2 = type_crc w"
    and c: "calls (dest w2) = calls (dest w) @ trailer_calls w @ cs"
    and l: "AddRecord_loop w ptr b =
        (if s = OK \<and> frag_len w ptr < length ptr
         then AddRecord_loop w2 (drop (frag_len w ptr) ptr) False else Inr (s, w2))"
    by blast
  have v2: "0 \<le> block_offset w2" "block_offset w2 \<le> kBlockSize"
    using o after_trailer_offset[OF v] frag_len_fits(1)[OF v, of ptr]
    by (simp_all add: kHeaderSize_def)
  show ?case
  proof (cases "s = OK \<and> frag_len w ptr < length ptr")
    case True
    with e have "EmitPhysicalRecord (after_trailer w) (frag_type b (frag_len w ptr = length ptr))
          (take (frag_len w ptr) ptr) = Inr (OK, w2)"
      by simp
    from step.IH[OF v this _ v2] True obtain s' w' cs' where
      "AddRecord_loop w2 (drop (frag_len w ptr) ptr) False = Inr (s', w')"
      "0 \<le> block_offset w'" "block_offset w' \<le> kBlockSize"
      "type_crc w' = type_crc w2" "calls (dest w') = calls (dest w2) @ cs'"
      by blast
    with l True tc c show ?thesis
      by simp
  next
    case False
    with l v2 tc c show ?thesis
      by simp
  qed
qed

subsection \<open>The calls and the headers of one iteration\<close>

lemma new_calls_eq: "calls (dest w') = calls (dest w) @ cs \<Longrightarrow> new_calls w w' = cs"
  by (simp add: new_calls_def)

lemma header_type_record_header: "header_type (record_header w t data) = of_nat (type_value t)"
  by (simp add: header_type_def record_header_def EncodeFixed32_def)

lemma header_length_record_header:
  "length data \<le> 0xffff \<Longrightarrow> header_length (record_header w t data) = length data"
  using len_roundtrip[of "length data"]
  by (simp add: header_length_def record_header_def EncodeFixed32_def)

lemma length_EncodeFixed32: "length (EncodeFixed32 v) = 4"
  by (simp add: EncodeFixed32_def)

lemma header_crc_record_header:
  "header_crc (record_header w t data) = crc32c_Mask (crc32c_Extend (type_crc w t) data)"
  by (simp add: header_crc_def record_header_def Decode_Encode length_EncodeFixed32)

lemma emitted_headers_short:
  "length d < 7 \<Longrightarrow> emitted_headers ((AppendCall d, s) # cs) = emitted_headers cs"
  by (cases cs) simp_all

lemma emitted_headers_long:
  "\<not> length d < 7 \<Longrightarrow> emitted_headers ((AppendCall d, s) # cs) = d # emitted_headers (tl cs)"
  by (cases cs) simp_all

lemma emitted_headers_trailer: "emitted_headers (trailer_calls w @ cs) = emitted_headers cs"
proof (cases "kBlockSize - block_offset w < kHeaderSize \<and> 0 < kBlockSize - block_offset w")
  case True
  then have "length (replicate (nat (kBlockSize - block_offset w)) (0::byte)) < 7"
    by (auto simp add: kHeaderSize_def)
  from emitted_headers_short[OF this] True show ?thesis
    by (simp add: trailer_calls_def)
next
  case False
  then show ?thesis
    by (auto simp add: trailer_calls_def)
qed

lemma loop_calls_step:
  fixes w :: Writer and ptr :: "byte list" and b :: bool
  assumes v: "0 \<le> block_offset w" "block_offset w \<le> kBlockSize"
    and r: "AddRecord_loop w ptr b = Inr (s, w')"
  defines "n \<equiv> frag_len w ptr"
  defines "t \<equiv> frag_type b (frag_len w ptr = length ptr)"
  defines "h \<equiv> record_header (after_trailer w) t (take n ptr)"
  shows "\<exists>s1 w2 cs.
      EmitPhysicalRecord (after_trailer w) t (take n ptr) = Inr (s1, w2) \<and>
      0 \<le> block_offset w2 \<and> block_offset w2 \<le> kBlockSize \<and>
      block_offset w2 = block_offset (after_trailer w) + kHeaderSize + int n \<and>
      type_crc w2 = type_crc w \<and>
      script (dest w2) = drop (length (trailer_calls w @ cs)) (script (dest w)) \<and>
      (cs = [(AppendCall h, s1)] \<and> s1 \<noteq> OK \<or>
       cs = [(AppendCall h, OK), (AppendCall (take n ptr), s1)] \<and> s1 \<noteq> OK \<or>
       cs = [(AppendCall h, OK), (AppendCall (take n ptr), OK), (FlushCall, s1)]) \<and>
      (if s1 = OK \<and> n < length ptr
       then AddRecord_loop w2 (drop n ptr) False = Inr (s, w') \<and>
            new_calls w w' = trailer_calls w @ cs @ new_calls w2 w'
       else s1 = s \<and> w2 = w' \<and> new_calls w w' = trailer_calls w @ cs)"
proof -
  from loop_iteration[OF v, where ptr = ptr and b = b] obtain s1 w2 cs where
    e: "EmitPhysicalRecord (after_trailer w) t (take n ptr) = Inr (s1, w2)"
    and o: "block_offset w2 = block_offset (after_trailer w) + kHeaderSize + int n"
    and tc: "type_crc w2 = type_crc w"
    and c: "calls (dest w2) = calls (dest w) @ trailer_calls w @ cs"
    and sc: "script (dest w2) = drop (length (trailer_calls w @ cs)) (script (dest w))"
    and k: "cs = [(AppendCall h, s1)] \<and> s1 \<noteq> OK \<or>
       cs = [(AppendCall h, OK), (AppendCall (take n ptr), s1)] \<and> s1 \<noteq> OK \<or>
       cs = [(AppendCall h, OK), (AppendCall (take n ptr), OK), (FlushCall, s1)]"
    and l: "AddRecord_loop w ptr b =
        (if s1 = OK \<and> n < length ptr
         then AddRecord_loop w2 (drop n ptr) False else Inr (s1, w2))"
    unfolding n_def t_def h_def by blast
  have v2: "0 \<le> block_offset w2" "block_offset w2 \<le> kBlockSize"
    using o after_trailer_offset[OF v] frag_len_fits(1)[OF v, of ptr]
    by (simp_all add: kHeaderSize_def n_def)
  have f: "if s1 = OK \<and> n < length ptr
       then AddRecord_loop w2 (drop n ptr) False = Inr (s, w') \<and>
            new_calls w w' = trailer_calls w @ cs @ new_calls w2 w'
       else s1 = s \<and> w2 = w' \<and> new_calls w w' = trailer_calls w @ cs"
  proof (cases "s1 = OK \<and> n < length ptr")
    case True
    with l r have r2: "AddRecord_loop w2 (drop n ptr) False = Inr (s, w')"
      by simp
    from loop_returns[OF v2, of "drop n ptr" False] r2 obtain cs' where
      c': "calls (dest w') = calls (dest w2) @ cs'"
      by auto
    then have "new_calls w2 w' = cs'"
      by (rule new_calls_eq)
    moreover from c c' have "new_calls w w' = trailer_calls w @ cs @ cs'"
      by (simp add: new_calls_eq)
    ultimately show ?thesis
      using True r2 by simp
  next
    case False
    with l r have "s1 = s" "w2 = w'"
      by simp_all
    with c False show ?thesis
      by (auto simp add: new_calls_eq)
  qed
  from e v2 o tc sc k f show ?thesis
    by blast
qed

lemma emitted_headers_record:
  assumes "length h = 7"
    and "cs = [(AppendCall h, s1)] \<and> s1 \<noteq> OK \<or>
         cs = [(AppendCall h, OK), (AppendCall data, s1)] \<and> s1 \<noteq> OK \<or>
         cs = [(AppendCall h, OK), (AppendCall data, OK), (FlushCall, s1)]"
  shows "s1 = OK \<Longrightarrow> emitted_headers (cs @ rest) = h # emitted_headers rest"
    and "emitted_headers cs = [h]"
  using assms by (auto simp add: emitted_headers_long)

lemma loop_headers_step:
  fixes w :: Writer and ptr :: "byte list" and b :: bool
  assumes v: "0 \<le> block_offset w" "block_offset w \<le> kBlockSize"
    and r: "AddRecord_loop w ptr b = Inr (s, w')"
  defines "n \<equiv> frag_len w ptr"
  defines "t \<equiv> frag_type b (frag_len w ptr = length ptr)"
  defines "h \<equiv> record_header (after_trailer w) t (take n ptr)"
  shows "\<exists>s1 w2.
      EmitPhysicalRecord (after_trailer w) t (take n ptr) = Inr (s1, w2) \<and>
      0 \<le> block_offset w2 \<and> block_offset w2 \<le> kBlockSize \<and>
      (if s1 = OK \<and> n < length ptr
       then AddRecord_loop w2 (drop n ptr) False = Inr (s, w') \<and>
            emitted_headers (new_calls w w') = h # emitted_headers (new_calls w2 w')
       else s1 = s \<and> w2 = w' \<and> emitted_headers (new_calls w w') = [h])"
proof -
  from loop_calls_step[OF v r] obtain s1 w2 cs where
    e: "EmitPhysicalRecord (after_trailer w) t (take n ptr) = Inr (s1, w2)"
    and v2: "0 \<le> block_offset w2" "block_offset w2 \<le> kBlockSize"
    and k: "cs = [(AppendCall h, s1)] \<and> s1 \<noteq> OK \<or>
       cs = [(AppendCall h, OK), (AppendCall (take n ptr), s1)] \<and> s1 \<noteq> OK \<or>
       cs = [(AppendCall h, OK), (AppendCall (take n ptr), OK), (FlushCall, s1)]"
    and f: "if s1 = OK \<and> n < length ptr
       then AddRecord_loop w2 (drop n ptr) False = Inr (s, w') \<and>
            new_calls w w' = trailer_calls w @ cs @ new_calls w2 w'
       else s1 = s \<and> w2 = w' \<and> new_calls w w' = trailer_calls w @ cs"
    unfolding n_def t_def h_def by blast
  have lh: "length h = 7"
    by (simp add: h_def length_record_header)
  have "if s1 = OK \<and> n < length ptr
       then AddRecord_loop w2 (drop n ptr) False = Inr (s, w') \<and>
            emitted_headers (new_calls w w') = h # emitted_headers (new_calls w2 w')
       else s1 = s \<and> w2 = w' \<and> emitted_headers (new_calls w w') = [h]"
    using f emitted_headers_record(1)[OF lh k, of "new_calls w2 w'"]
      emitted_headers_record(2)[OF lh k]
    by (simp add: emitted_headers_trailer split: if_splits)
  with e v2 show ?thesis
    by blast
qed

lemma loop_header_lengths:
  "0 \<le> block_offset w \<Longrightarrow> block_offset w \<le> kBlockSize \<Longrightarrow>
   AddRecord_loop w ptr b = Inr (s, w') \<Longrightarrow>
   h \<in> set (emitted_headers (new_calls w w')) \<Longrightarrow> header_length h \<le> 32761"
proof (induction w ptr b rule: loop_induct)
  case (step w ptr b)
  note v = step.prems(1,2)
  let ?n = "frag_len w ptr"
  let ?h = "record_header (after_trailer w) (frag_type b (?n = length ptr)) (take ?n ptr)"
  from loop_headers_step[OF v step.prems(3)] obtain s1 w2 where
    e: "EmitPhysicalRecord (after_trailer w) (frag_type b (?n = length ptr)) (take ?n ptr)
          = Inr (s1, w2)"
    and v2: "0 \<le> block_offset w2" "block_offset w2 \<le> kBlockSize"
    and f: "if s1 = OK \<and> ?n < length ptr
       then AddRecord_loop w2 (drop ?n ptr) False = Inr (s, w') \<and>
            emitted_headers (new_calls w w') = ?h # emitted_headers (new_calls w2 w')
       else s1 = s \<and> w2 = w' \<and> emitted_headers (new_calls w w') = [?h]"
    by blast
  have n: "?n \<le> 32761"
    by (rule frag_len_fits(2)[OF v])
  have "length (take ?n ptr) = ?n"
    using frag_len_le[of w ptr] by simp
  with n have hl: "header_length ?h \<le> 32761"
    by (simp add: header_length_record_header)
  show ?case
  proof (cases "s1 = OK \<and> ?n < length ptr")
    case True
    with f have r2: "AddRecord_loop w2 (drop ?n ptr) False = Inr (s, w')"
      and hs: "emitted_headers (new_calls w w') = ?h # emitted_headers (new_calls w2 w')"
      by simp_all
    from True e have e': "EmitPhysicalRecord (after_trailer w) (frag_type b (?n = length ptr))
        (take ?n ptr) = Inr (OK, w2)"
      by simp
    from step.prems(4) hs have "h = ?h \<or> h \<in> set (emitted_headers (new_calls w2 w'))"
      by simp
    then show ?thesis
      using hl step.IH[OF v e' _ v2 r2] True by blast
  next
    case False
    with f step.prems(4) hl show ?thesis
      by simp
  qed
qed

subsection \<open>A record that fills the block exactly\<close>

lemma exact_fit:
  assumes v: "0 \<le> block_offset w" "block_offset w + kHeaderSize \<le> kBlockSize"
    and n: "int (length data) = kBlockSize - block_offset w - kHeaderSize"
  shows "\<exists>s w'. AddRecord_loop w data b = Inr (s, w') \<and>
           EmitPhysicalRecord w (frag_type b True) data = Inr (s, w') \<and>
           block_offset w' = kBlockSize \<and>
           (new_calls w w' = [(AppendCall (record_header w (frag_type b True) data), s)] \<and> s \<noteq> OK \<or>
            new_calls w w' = [(AppendCall (record_header w (frag_type b True) data), OK),
                              (AppendCall data, s)] \<and> s \<noteq> OK \<or>
            new_calls w w' = [(AppendCall (record_header w (frag_type b True) data), OK),
                              (AppendCall data, OK), (FlushCall, s)])"
proof -
  have v': "block_offset w \<le> kBlockSize"
    using v by (simp add: kHeaderSize_def)
  have at: "after_trailer w = w"
    using v by (simp add: after_trailer_def)
  have tc: "trailer_calls w = []"
    using v by (simp add: trailer_calls_def)
  have fl: "frag_len w data = length data"
    using n by (simp add: frag_len_def at)
  from loop_returns[OF v(1) v', of data b] obtain s w' where
    r: "AddRecord_loop w data b = Inr (s, w')"
    by blast
  from loop_calls_step[OF v(1) v' r] obtain s1 w2 cs where
    "EmitPhysicalRecord w (frag_type b True) data = Inr (s1, w2)"
    "block_offset w2 = block_offset w + kHeaderSize + int (length data)"
    "cs = [(AppendCall (record_header w (frag_type b True) data), s1)] \<and> s1 \<noteq> OK \<or>
       cs = [(AppendCall (record_header w (frag_type b True) data), OK), (AppendCall data, s1)]
         \<and> s1 \<noteq> OK \<or>
       cs = [(AppendCall (record_header w (frag_type b True) data), OK), (AppendCall data, OK),
             (FlushCall, s1)]"
    "s1 = s \<and> w2 = w' \<and> new_calls w w' = cs"
    unfolding at fl tc by auto
  with r n show ?thesis
    by auto
qed

lemma exact_fit_offset:
  assumes "0 \<le> block_offset w" "block_offset w + kHeaderSize \<le> kBlockSize"
    and "int (length data) = kBlockSize - block_offset w - kHeaderSize"
  shows "offset_after (AddRecord w data) = Some kBlockSize"
  using exact_fit[OF assms, of True] by (auto simp add: AddRecord_def offset_after_def)

subsection \<open>The types and lengths in the headers\<close>

lemma loop_header_types:
  "0 \<le> block_offset w \<Longrightarrow> block_offset w \<le> kBlockSize \<Longrightarrow>
   AddRecord_loop w ptr b = Inr (s, w') \<Longrightarrow>
   i < length (emitted_headers (new_calls w w')) \<Longrightarrow>
   header_type (emitted_headers (new_calls w w') ! i) =
     of_nat (type_value (frag_type (b \<and> i = 0)
       (sum_list (map header_length (take (Suc i) (emitted_headers (new_calls w w'))))
          = length ptr)))"
proof (induction w ptr b arbitrary: i rule: loop_induct)
  case (step w ptr b)
  note v = step.prems(1,2)
  let ?n = "frag_len w ptr"
  let ?t = "frag_type b (?n = length ptr)"
  let ?h = "record_header (after_trailer w) ?t (take ?n ptr)"
  from loop_headers_step[OF v step.prems(3)] obtain s1 w2 where
    e: "EmitPhysicalRecord (after_trailer w) ?t (take ?n ptr) = Inr (s1, w2)"
    and v2: "0 \<le> block_offset w2" "block_offset w2 \<le> kBlockSize"
    and f: "if s1 = OK \<and> ?n < length ptr
       then AddRecord_loop w2 (drop ?n ptr) False = Inr (s, w') \<and>
            emitted_headers (new_calls w w') = ?h # emitted_headers (new_calls w2 w')
       else s1 = s \<and> w2 = w' \<and> emitted_headers (new_calls w w') = [?h]"
    by blast
  have nl: "?n \<le> length ptr"
    by (rule frag_len_le)
  have "?n \<le> 32761"
    by (rule frag_len_fits(2)[OF v])
  with nl have hl: "header_length ?h = ?n"
    by (simp add: header_length_record_header)
  have ht: "header_type ?h = of_nat (type_value ?t)"
    by (rule header_type_record_header)
  show ?case
  proof (cases i)
    case 0
    from f have "\<exists>hs. emitted_headers (new_calls w w') = ?h # hs"
      by (simp split: if_splits)
    with 0 hl ht show ?thesis
      by auto
  next
    case (Suc j)
    show ?thesis
    proof (cases "s1 = OK \<and> ?n < length ptr")
      case True
      with f have r2: "AddRecord_loop w2 (drop ?n ptr) False = Inr (s, w')"
        and hs: "emitted_headers (new_calls w w') = ?h # emitted_headers (new_calls w2 w')"
        by simp_all
      from True e have e': "EmitPhysicalRecord (after_trailer w) ?t (take ?n ptr) = Inr (OK, w2)"
        by simp
      from step.prems(4) hs Suc have j: "j < length (emitted_headers (new_calls w2 w'))"
        by simp
      from step.IH[OF v e' _ v2 r2 j] True
      have "header_type (emitted_headers (new_calls w2 w') ! j) =
        of_nat (type_value (frag_type False
          (sum_list (map header_length (take (Suc j) (emitted_headers (new_calls w2 w'))))
             = length ptr - ?n)))"
        by simp
      moreover have "(?n + x = length ptr) = (x = length ptr - ?n)" for x
        using nl by auto
      ultimately show ?thesis
        using hs Suc hl by simp
    next
      case False
      with f step.prems(4) Suc show ?thesis
        by simp
    qed
  qed
qed

subsection \<open>Running the model on concrete inputs\<close>

lemmas run_simps = AddRecord_def AddRecord_loop.simps EmitPhysicalRecord_def Append_def
  Flush_def perform_def new_Writer_def kBlockSize_def kHeaderSize_def Let_def
  new_calls_def header_type_def header_length_def EncodeFixed32_def len_lo drop_bit_eq_div

lemma loop_first_calls:
  fixes w :: Writer and ptr :: "byte list" and b :: bool
  assumes v: "0 \<le> block_offset w" "block_offset w \<le> kBlockSize"
  defines "h \<equiv> record_header (after_trailer w) (frag_type b (frag_len w ptr = length ptr))
                   (take (frag_len w ptr) ptr)"
  shows "\<exists>s w' st rest. AddRecord_loop w ptr b = Inr (s, w') \<and>
           new_calls w w' = trailer_calls w @ (AppendCall h, st) # rest"
proof -
  from loop_returns[OF v, of ptr b] obtain s w' where
    r: "AddRecord_loop w ptr b = Inr (s, w')"
    by blast
  from loop_calls_step[OF v r] obtain s1 w2 cs where
    k: "cs = [(AppendCall h, s1)] \<and> s1 \<noteq> OK \<or>
       cs = [(AppendCall h, OK), (AppendCall (take (frag_len w ptr) ptr), s1)] \<and> s1 \<noteq> OK \<or>
       cs = [(AppendCall h, OK), (AppendCall (take (frag_len w ptr) ptr), OK), (FlushCall, s1)]"
    and f: "if s1 = OK \<and> frag_len w ptr < length ptr
       then AddRecord_loop w2 (drop (frag_len w ptr) ptr) False = Inr (s, w') \<and>
            new_calls w w' = trailer_calls w @ cs @ new_calls w2 w'
       else s1 = s \<and> w2 = w' \<and> new_calls w w' = trailer_calls w @ cs"
    unfolding h_def by blast
  from k obtain st cs' where "cs = (AppendCall h, st) # cs'"
    by auto
  with f have "\<exists>rest. new_calls w w' = trailer_calls w @ (AppendCall h, st) # rest"
    by (simp split: if_splits)
  with r show ?thesis
    by blast
qed

lemmas crc_simps = crc32c_Value_def crc32c_Extend_def crc32c_Mask_def kMaskDelta_def
  crc_byte_def crc_table_unfold crc_shift_def

lemma masked_crc_Full: "crc32c_Mask (crc32c_Value [1]) = 0x43282B05"
  by (simp add: crc_simps)

subsection \<open>The checksum in the headers\<close>

lemma Emit_type_crc: "EmitPhysicalRecord w t data = Inr (s, w') \<Longrightarrow> type_crc w' = type_crc w"
  by (auto simp add: EmitPhysicalRecord_def Let_def split: if_splits prod.splits)

lemma record_header_checksum:
  assumes "type_crc w = type_crc (new_Writer d)"
  shows "header_crc (record_header w t data) =
         crc32c_Mask (crc32c_Value (header_type (record_header w t data) # data))"
  by (simp add: header_crc_record_header header_type_record_header assms new_Writer_def
      Extend_Value)

lemma loop_header_crcs:
  "0 \<le> block_offset w \<Longrightarrow> block_offset w \<le> kBlockSize \<Longrightarrow>
   type_crc w = type_crc (new_Writer d) \<Longrightarrow>
   AddRecord_loop w ptr b = Inr (s, w') \<Longrightarrow>
   i < length (emitted_headers (new_calls w w')) \<Longrightarrow>
   header_crc (emitted_headers (new_calls w w') ! i) =
     crc32c_Mask (crc32c_Value
       (header_type (emitted_headers (new_calls w w') ! i) #
        take (header_length (emitted_headers (new_calls w w') ! i))
          (drop (sum_list (map header_length (take i (emitted_headers (new_calls w w')))))
             ptr)))"
proof (induction w ptr b arbitrary: i rule: loop_induct)
  case (step w ptr b)
  note v = step.prems(1,2)
  note tc = step.prems(3)
  let ?n = "frag_len w ptr"
  let ?t = "frag_type b (?n = length ptr)"
  let ?h = "record_header (after_trailer w) ?t (take ?n ptr)"
  from loop_headers_step[OF v step.prems(4)] obtain s1 w2 where
    e: "EmitPhysicalRecord (after_trailer w) ?t (take ?n ptr) = Inr (s1, w2)"
    and v2: "0 \<le> block_offset w2" "block_offset w2 \<le> kBlockSize"
    and f: "if s1 = OK \<and> ?n < length ptr
       then AddRecord_loop w2 (drop ?n ptr) False = Inr (s, w') \<and>
            emitted_headers (new_calls w w') = ?h # emitted_headers (new_calls w2 w')
       else s1 = s \<and> w2 = w' \<and> emitted_headers (new_calls w w') = [?h]"
    by blast
  have tc1: "type_crc (after_trailer w) = type_crc (new_Writer d)"
    using tc by (simp add: after_trailer_type_crc)
  have tc2: "type_crc w2 = type_crc (new_Writer d)"
    using Emit_type_crc[OF e] tc1 by simp
  have nl: "?n \<le> length ptr"
    by (rule frag_len_le)
  have "?n \<le> 32761"
    by (rule frag_len_fits(2)[OF v])
  with nl have hl: "header_length ?h = ?n"
    by (simp add: header_length_record_header)
  have hc: "header_crc ?h = crc32c_Mask (crc32c_Value (header_type ?h # take ?n ptr))"
    by (rule record_header_checksum[OF tc1])
  show ?case
  proof (cases i)
    case 0
    from f have "\<exists>hs. emitted_headers (new_calls w w') = ?h # hs"
      by (simp split: if_splits)
    with 0 hl hc show ?thesis
      by auto
  next
    case (Suc j)
    show ?thesis
    proof (cases "s1 = OK \<and> ?n < length ptr")
      case True
      with f have r2: "AddRecord_loop w2 (drop ?n ptr) False = Inr (s, w')"
        and hs: "emitted_headers (new_calls w w') = ?h # emitted_headers (new_calls w2 w')"
        by simp_all
      from True e have e': "EmitPhysicalRecord (after_trailer w) ?t (take ?n ptr) = Inr (OK, w2)"
        by simp
      from step.prems(5) hs Suc have j: "j < length (emitted_headers (new_calls w2 w'))"
        by simp
      from step.IH[OF v e' _ v2 tc2 r2 j] True
      show ?thesis
        using hs Suc hl by (simp add: add.commute)
    next
      case False
      with f step.prems(5) Suc show ?thesis
        by simp
    qed
  qed
qed

subsection \<open>A file that never fails, read back\<close>

lemma type_roundtrip: "t \<noteq> kZeroType \<Longrightarrow> record_type_of (of_nat (type_value t)) = Some t"
  by (cases t) (simp_all add: record_type_of_def)

lemma frag_type_not_zero: "frag_type b e \<noteq> kZeroType"
  by (simp add: frag_type_def)

lemma appended_append: "appended (xs @ ys) = appended xs @ appended ys"
  by (induction xs rule: appended.induct) simp_all

lemma perform_all_ok:
  assumes "set (script f) \<subseteq> {OK}"
  shows "fst (perform c f) = OK"
  using assms by (cases "script f") (auto simp add: perform_def Let_def)

lemma trailer_calls_all_ok:
  assumes "set (script (dest w)) \<subseteq> {OK}"
  shows "appended (trailer_calls w) =
     (if kBlockSize - block_offset w < kHeaderSize
      then replicate (nat (kBlockSize - block_offset w)) 0 else [])"
  using perform_all_ok[OF assms] by (simp add: trailer_calls_def Append_def)

lemma Emit_status_from_script:
  assumes "EmitPhysicalRecord w t data = Inr (s, w')"
  shows "s = OK \<or> s \<in> set (script (dest w))"
proof -
  have p: "fst (perform c f) = OK \<or> fst (perform c f) \<in> set (script f)" for c f
    by (cases "script f") (simp_all add: perform_def Let_def)
  have q: "set (script (snd (perform c f))) \<subseteq> set (script f)" for c f
    by (cases "script f") (auto simp add: perform_def Let_def)
  let ?h = "EncodeFixed32 (crc32c_Mask (crc32c_Extend (type_crc w t) data)) @
            [of_nat (length data AND 0xff), of_nat (drop_bit 8 (length data)),
             of_nat (type_value t)]"
  let ?a1 = "perform (AppendCall ?h) (dest w)"
  let ?a2 = "perform (AppendCall data) (snd ?a1)"
  let ?a3 = "perform FlushCall (snd ?a2)"
  from assms have "s = fst ?a1 \<or> s = fst ?a2 \<or> s = fst ?a3"
    by (auto simp add: EmitPhysicalRecord_def Let_def Append_def Flush_def
        split: if_splits prod.splits)
  moreover have "fst ?a1 = OK \<or> fst ?a1 \<in> set (script (dest w))"
    by (rule p)
  moreover have "fst ?a2 = OK \<or> fst ?a2 \<in> set (script (dest w))"
    using p[of "AppendCall data" "snd ?a1"] q[of "AppendCall ?h" "dest w"] by blast
  moreover have "fst ?a3 = OK \<or> fst ?a3 \<in> set (script (dest w))"
    using p[of FlushCall "snd ?a2"] q[of "AppendCall data" "snd ?a1"]
      q[of "AppendCall ?h" "dest w"] by blast
  ultimately show ?thesis
    by metis
qed

lemma after_trailer_script_subset: "set (script (dest (after_trailer w))) \<subseteq> set (script (dest w))"
  by (simp add: after_trailer_script set_drop_subset)

lemma read_records_pad:
  assumes "nat kBlockSize - pos < nat kHeaderSize" "7 \<le> length bs"
  shows "read_records pos (replicate (nat kBlockSize - pos) 0 @ bs) = read_records 0 bs"
proof -
  have "bs \<noteq> []"
    using assms(2) by auto
  moreover have "\<not> (length (replicate (nat kBlockSize - pos) (0::byte) @ bs) \<le> nat kBlockSize - pos
      \<and> 0 < nat kBlockSize - pos)"
    using assms(2) by auto
  ultimately show ?thesis
    using assms(1)
    by (subst read_records.simps) (simp add: Let_def)
qed

lemma read_records_header:
  assumes h: "length h = 7" "record_type_of (header_type h) = Some t"
    "header_length h = length payload" "checksum_ok h payload"
    and fit: "pos + 7 + length payload \<le> nat kBlockSize"
  shows "read_records pos (h @ payload @ rest) =
     map_option ((#) (t, payload)) (read_records (pos + 7 + length payload) rest)"
proof -
  have "\<not> nat kBlockSize - pos < nat kHeaderSize"
    using fit by (simp add: kHeaderSize_def)
  moreover have "h \<noteq> []"
    using h(1) by auto
  ultimately show ?thesis
    using h fit
    by (subst read_records.simps) (simp add: Let_def kHeaderSize_def)
qed

lemma read_one_record:
  fixes w :: Writer
  assumes v: "0 \<le> block_offset w" "block_offset w \<le> kBlockSize"
    and h: "length h = 7" "record_type_of (header_type h) = Some t"
      "header_length h = length payload" "checksum_ok h payload"
    and fit: "block_offset (after_trailer w) + kHeaderSize + int (length payload) \<le> kBlockSize"
  defines "pad \<equiv> (if kBlockSize - block_offset w < kHeaderSize
                    then replicate (nat (kBlockSize - block_offset w)) (0::byte) else [])"
  shows "read_records (nat (block_offset w)) (pad @ h @ payload @ rest) =
     map_option ((#) (t, payload))
       (read_records (nat (block_offset (after_trailer w) + kHeaderSize + int (length payload)))
          rest)"
proof (cases "kBlockSize - block_offset w < kHeaderSize")
  case True
  then have at: "block_offset (after_trailer w) = 0"
    by (simp add: after_trailer_def)
  have k: "nat kBlockSize - nat (block_offset w) = nat (kBlockSize - block_offset w)"
    using v by simp
  have "read_records (nat (block_offset w)) (pad @ h @ payload @ rest) =
        read_records 0 (h @ payload @ rest)"
    using read_records_pad[of "nat (block_offset w)" "h @ payload @ rest"] True v h(1)
    by (simp add: pad_def k kHeaderSize_def)
  also have "\<dots> = map_option ((#) (t, payload)) (read_records (0 + 7 + length payload) rest)"
    using fit at by (intro read_records_header h) (simp add: kHeaderSize_def)
  finally show ?thesis
    using at by (simp add: kHeaderSize_def nat_add_distrib)
next
  case False
  then have at: "after_trailer w = w"
    by (simp add: after_trailer_def)
  have "read_records (nat (block_offset w)) (h @ payload @ rest) =
     map_option ((#) (t, payload)) (read_records (nat (block_offset w) + 7 + length payload) rest)"
    using fit at v by (intro read_records_header h) (simp add: kHeaderSize_def)
  with False v show ?thesis
    by (simp add: pad_def at kHeaderSize_def nat_add_distrib)
qed

lemma loop_roundtrip:
  "0 \<le> block_offset w \<Longrightarrow> block_offset w \<le> kBlockSize \<Longrightarrow>
   type_crc w = type_crc (new_Writer d) \<Longrightarrow> set (script (dest w)) \<subseteq> {OK} \<Longrightarrow>
   \<exists>w' frags. AddRecord_loop w ptr b = Inr (OK, w') \<and>
     read_records (nat (block_offset w)) (appended (new_calls w w')) = Some frags \<and>
     concat (map snd frags) = ptr \<and>
     (if b then map fst frags = [kFullType] \<or>
               (\<exists>k. map fst frags = kFirstType # replicate k kMiddleType @ [kLastType])
      else (\<exists>k. map fst frags = replicate k kMiddleType @ [kLastType]))"
proof (induction w ptr b rule: loop_induct)
  case (step w ptr b)
  note v = step.prems(1,2)
  note tc = step.prems(3)
  note ok = step.prems(4)
  let ?n = "frag_len w ptr"
  let ?t = "frag_type b (?n = length ptr)"
  let ?h = "record_header (after_trailer w) ?t (take ?n ptr)"
  let ?pad = "(if kBlockSize - block_offset w < kHeaderSize
               then replicate (nat (kBlockSize - block_offset w)) (0::byte) else [])"
  from loop_returns[OF v, of ptr b] obtain s w' where
    r: "AddRecord_loop w ptr b = Inr (s, w')"
    by blast
  from loop_calls_step[OF v r] obtain s1 w2 cs where
    e: "EmitPhysicalRecord (after_trailer w) ?t (take ?n ptr) = Inr (s1, w2)"
    and v2: "0 \<le> block_offset w2" "block_offset w2 \<le> kBlockSize"
    and o: "block_offset w2 = block_offset (after_trailer w) + kHeaderSize + int ?n"
    and tc2: "type_crc w2 = type_crc w"
    and sc: "script (dest w2) = drop (length (trailer_calls w @ cs)) (script (dest w))"
    and k: "cs = [(AppendCall ?h, s1)] \<and> s1 \<noteq> OK \<or>
       cs = [(AppendCall ?h, OK), (AppendCall (take ?n ptr), s1)] \<and> s1 \<noteq> OK \<or>
       cs = [(AppendCall ?h, OK), (AppendCall (take ?n ptr), OK), (FlushCall, s1)]"
    and f: "if s1 = OK \<and> ?n < length ptr
       then AddRecord_loop w2 (drop ?n ptr) False = Inr (s, w') \<and>
            new_calls w w' = trailer_calls w @ cs @ new_calls w2 w'
       else s1 = s \<and> w2 = w' \<and> new_calls w w' = trailer_calls w @ cs"
    by blast
  have s1: "s1 = OK"
    using Emit_status_from_script[OF e] after_trailer_script_subset[of w] ok by auto
  with k have cs: "appended cs = ?h @ take ?n ptr"
    by auto
  have ok2: "set (script (dest w2)) \<subseteq> {OK}"
    unfolding sc using ok set_drop_subset by fastforce
  have nl: "?n \<le> length ptr"
    by (rule frag_len_le)
  then have ln: "length (take ?n ptr) = ?n"
    by simp
  have n: "?n \<le> 32761"
    by (rule frag_len_fits(2)[OF v])
  have tc1: "type_crc (after_trailer w) = type_crc (new_Writer d)"
    using tc by (simp add: after_trailer_type_crc)
  have h1: "length ?h = 7"
    by (rule length_record_header)
  have h2: "record_type_of (header_type ?h) = Some ?t"
    by (simp add: header_type_record_header type_roundtrip frag_type_not_zero)
  have h3: "header_length ?h = length (take ?n ptr)"
    using n ln by (simp add: header_length_record_header)
  have h4: "checksum_ok ?h (take ?n ptr)"
    unfolding checksum_ok_def record_header_checksum[OF tc1] by (simp add: Unmask_Mask)
  have fit: "block_offset (after_trailer w) + kHeaderSize + int (length (take ?n ptr))
      \<le> kBlockSize"
    using frag_len_fits(1)[OF v, of ptr] ln by simp
  have rd: "read_records (nat (block_offset w)) (?pad @ ?h @ take ?n ptr @ rest) =
     map_option ((#) (?t, take ?n ptr)) (read_records (nat (block_offset w2)) rest)" for rest
    using read_one_record[OF v h1 h2 h3 h4 fit, of rest] o ln by simp
  have pad: "appended (trailer_calls w) = ?pad"
    by (rule trailer_calls_all_ok[OF ok])
  show ?case
  proof (cases "?n < length ptr")
    case True
    with f s1 have r2: "AddRecord_loop w2 (drop ?n ptr) False = Inr (s, w')"
      and nc: "new_calls w w' = trailer_calls w @ cs @ new_calls w2 w'"
      by simp_all
    from e s1 have e': "EmitPhysicalRecord (after_trailer w) ?t (take ?n ptr) = Inr (OK, w2)"
      by simp
    from step.IH[OF v e' True v2 _ ok2] tc2 tc r2 obtain frags where
      s: "s = OK"
      and rd2: "read_records (nat (block_offset w2)) (appended (new_calls w2 w')) = Some frags"
      and c2: "concat (map snd frags) = drop ?n ptr"
      and t2: "\<exists>k. map fst frags = replicate k kMiddleType @ [kLastType]"
      by auto
    from t2 obtain k where k: "map fst frags = replicate k kMiddleType @ [kLastType]"
      by blast
    have t: "?t = (if b then kFirstType else kMiddleType)"
      using True by (simp add: frag_type_def)
    have "read_records (nat (block_offset w)) (appended (new_calls w w')) =
          Some ((?t, take ?n ptr) # frags)"
      unfolding nc appended_append pad cs using rd[of "appended (new_calls w2 w')"] rd2
      by simp
    moreover have "concat (map snd ((?t, take ?n ptr) # frags)) = ptr"
      using c2 by simp
    moreover have "if b then map fst ((?t, take ?n ptr) # frags) = [kFullType] \<or>
               (\<exists>k. map fst ((?t, take ?n ptr) # frags) =
                  kFirstType # replicate k kMiddleType @ [kLastType])
      else (\<exists>k. map fst ((?t, take ?n ptr) # frags) = replicate k kMiddleType @ [kLastType])"
    proof (cases b)
      case True
      with t k show ?thesis by simp
    next
      case False
      with t k have "map fst ((?t, take ?n ptr) # frags) =
          replicate (Suc k) kMiddleType @ [kLastType]"
        by simp
      then have "\<exists>k'. map fst ((?t, take ?n ptr) # frags) =
          replicate k' kMiddleType @ [kLastType]"
        by (rule exI)
      with False show ?thesis
        by (simp only: if_False)
    qed
    ultimately show ?thesis
      using r s by blast
  next
    case False
    with nl have full: "?n = length ptr"
      by simp
    from False f s1 have s: "s = OK" and nc: "new_calls w w' = trailer_calls w @ cs"
      by simp_all
    have t: "?t = (if b then kFullType else kLastType)"
      using full by (simp add: frag_type_def)
    have "read_records (nat (block_offset w)) (appended (new_calls w w')) =
          Some [(?t, take ?n ptr)]"
      unfolding nc appended_append pad cs using rd[of "[]"]
      by (simp add: read_records.simps[of _ "[]"])
    moreover have "concat (map snd [(?t, take ?n ptr)]) = ptr"
      using full by simp
    moreover have "if b then map fst [(?t, take ?n ptr)] = [kFullType] \<or>
               (\<exists>k. map fst [(?t, take ?n ptr)] =
                  kFirstType # replicate k kMiddleType @ [kLastType])
      else (\<exists>k. map fst [(?t, take ?n ptr)] = replicate k kMiddleType @ [kLastType])"
      using t by (cases b) (simp_all add: exI[of _ 0])
    ultimately show ?thesis
      using r s by blast
  qed
qed

subsection \<open>The status that is returned\<close>

lemma loop_status_is_last_call:
  "0 \<le> block_offset w \<Longrightarrow> block_offset w \<le> kBlockSize \<Longrightarrow>
   AddRecord_loop w ptr b = Inr (s, w') \<Longrightarrow>
   new_calls w w' \<noteq> [] \<and> snd (last (new_calls w w')) = s"
proof (induction w ptr b rule: loop_induct)
  case (step w ptr b)
  note v = step.prems(1,2)
  let ?n = "frag_len w ptr"
  let ?t = "frag_type b (?n = length ptr)"
  let ?h = "record_header (after_trailer w) ?t (take ?n ptr)"
  from loop_calls_step[OF v step.prems(3)] obtain s1 w2 cs where
    e: "EmitPhysicalRecord (after_trailer w) ?t (take ?n ptr) = Inr (s1, w2)"
    and v2: "0 \<le> block_offset w2" "block_offset w2 \<le> kBlockSize"
    and k: "cs = [(AppendCall ?h, s1)] \<and> s1 \<noteq> OK \<or>
       cs = [(AppendCall ?h, OK), (AppendCall (take ?n ptr), s1)] \<and> s1 \<noteq> OK \<or>
       cs = [(AppendCall ?h, OK), (AppendCall (take ?n ptr), OK), (FlushCall, s1)]"
    and f: "if s1 = OK \<and> ?n < length ptr
       then AddRecord_loop w2 (drop ?n ptr) False = Inr (s, w') \<and>
            new_calls w w' = trailer_calls w @ cs @ new_calls w2 w'
       else s1 = s \<and> w2 = w' \<and> new_calls w w' = trailer_calls w @ cs"
    by blast
  from k have c: "cs \<noteq> [] \<and> snd (last cs) = s1"
    by auto
  show ?case
  proof (cases "s1 = OK \<and> ?n < length ptr")
    case True
    with f have r2: "AddRecord_loop w2 (drop ?n ptr) False = Inr (s, w')"
      and nc: "new_calls w w' = trailer_calls w @ cs @ new_calls w2 w'"
      by simp_all
    from True e have e': "EmitPhysicalRecord (after_trailer w) ?t (take ?n ptr) = Inr (OK, w2)"
      by simp
    from step.IH[OF v e' _ v2 r2] True nc show ?thesis
      by simp
  next
    case False
    with f c show ?thesis
      by simp
  qed
qed

section \<open>The claims\<close>

text \<open>
  C1. A call of \<open>AddRecord\<close> on a file that does not fail, from any block offset in
  \<open>[0, kBlockSize]\<close> and with the checksum table of the constructor, returns OK for
  every payload. Reading the bytes it appended, from that block offset, with the reader
  of the format (which checks the padding, the type tags, the block bounds and the
  checksums) gives fragments whose payloads, concatenated, are the payload written, and
  whose types are either a single Full, or one First, any number of Middle and one Last,
  in that order.
\<close>

theorem AddRecord_roundtrip:
  assumes "0 \<le> block_offset w" "block_offset w \<le> kBlockSize"
    and "type_crc w = type_crc (new_Writer d)"
    and "set (script (dest w)) \<subseteq> {OK}"
  shows "\<exists>w' frags. AddRecord w data = Inr (OK, w') \<and>
     read_records (nat (block_offset w)) (appended (new_calls w w')) = Some frags \<and>
     concat (map snd frags) = data \<and>
     (map fst frags = [kFullType] \<or>
      (\<exists>k. map fst frags = kFirstType # replicate k kMiddleType @ [kLastType]))"
  using loop_roundtrip[OF assms, of data True] by (simp add: AddRecord_def)

text \<open>
  Five bytes written from offset 32758 come back as a First fragment of three bytes and
  a Last fragment of two.
\<close>

theorem AddRecord_roundtrip_witness:
  "read_records 32758
     (appended
        (new_calls ((new_Writer \<lparr>calls = [], script = []\<rparr>)\<lparr>block_offset := 32758\<rparr>)
           (snd (projr (AddRecord
              ((new_Writer \<lparr>calls = [], script = []\<rparr>)\<lparr>block_offset := 32758\<rparr>)
              [65, 66, 67, 68, 69])))))
   = Some [(kFirstType, [65, 66, 67]), (kLastType, [68, 69])]"
proof -
  let ?w = "(new_Writer \<lparr>calls = [], script = []\<rparr>)\<lparr>block_offset := 32758\<rparr>"
  let ?w' = "snd (projr (AddRecord ?w [65, 66, 67, 68, 69]))"
  have out: "appended (new_calls ?w ?w') =
      EncodeFixed32 (crc32c_Mask (crc32c_Extend (crc32c_Value [2]) [65, 66, 67])) @
      [3, 0, 2, 65, 66, 67] @
      EncodeFixed32 (crc32c_Mask (crc32c_Extend (crc32c_Value [4]) [68, 69])) @
      [2, 0, 4, 68, 69]"
    by (simp add: AddRecord_def AddRecord_loop.simps EmitPhysicalRecord_def Append_def
      Flush_def perform_def new_Writer_def kBlockSize_def kHeaderSize_def Let_def
      new_calls_def len_lo drop_bit_eq_div)
  from AddRecord_roundtrip[where w = ?w and data = "[65, 66, 67, 68, 69]"
      and d = "\<lparr>calls = [], script = []\<rparr>"]
  obtain frags where
    rd: "read_records 32758 (appended (new_calls ?w ?w')) = Some frags"
    and c: "concat (map snd frags) = [65, 66, 67, 68, 69]"
    by (auto simp add: new_Writer_def kBlockSize_def)
  have "read_records 32758
      (EncodeFixed32 (crc32c_Mask (crc32c_Extend (crc32c_Value [2]) [65, 66, 67])) @
       [3, 0, 2, 65, 66, 67] @
       EncodeFixed32 (crc32c_Mask (crc32c_Extend (crc32c_Value [4]) [68, 69])) @
       [2, 0, 4, 68, 69])
     = Some [(kFirstType, [65, 66, 67]), (kLastType, [68, 69])]"
    by (simp add: read_records.simps kBlockSize_def kHeaderSize_def Let_def
        length_EncodeFixed32 header_length_def header_type_def header_crc_def
        record_type_of_def checksum_ok_def Decode_Encode Unmask_Mask Extend_Value
        nth_append)
  with rd show ?thesis
    unfolding out by simp
qed

text \<open>
  C2. In a call of \<open>AddRecord\<close> (from a block offset in \<open>[0, kBlockSize]\<close>, with the
  checksum table of the constructor, whatever the file answers), the checksum stored in
  the header of each emitted fragment is the masked crc32c of the type byte of that
  header followed by the bytes of the fragment, the slice of the payload that the length
  fields delimit. It depends on the type tag and the payload only: a second call with the
  same payload, from any other writer state, that cuts the payload into fragments of the
  same lengths stores the same checksums, record by record.
\<close>

theorem checksum_of_type_and_payload:
  assumes v: "0 \<le> block_offset w" "block_offset w \<le> kBlockSize"
    and tc: "type_crc w = type_crc (new_Writer d)"
    and r: "AddRecord w data = Inr (s, w')"
    and hs: "hs = emitted_headers (new_calls w w')"
  shows "(\<forall>i<length hs.
            header_crc (hs ! i) =
              crc32c_Mask (crc32c_Value
                (header_type (hs ! i) #
                 take (header_length (hs ! i))
                   (drop (sum_list (map header_length (take i hs))) data)))) \<and>
         (\<forall>v s2 v'. 0 \<le> block_offset v \<longrightarrow> block_offset v \<le> kBlockSize \<longrightarrow>
            type_crc v = type_crc (new_Writer d) \<longrightarrow>
            AddRecord v data = Inr (s2, v') \<longrightarrow>
            map header_length (emitted_headers (new_calls v v')) = map header_length hs \<longrightarrow>
            map header_crc (emitted_headers (new_calls v v')) = map header_crc hs)"
proof (intro conjI allI impI)
  fix i
  assume "i < length hs"
  with loop_header_crcs[OF v tc, of data True s w' i] r hs
  show "header_crc (hs ! i) =
              crc32c_Mask (crc32c_Value
                (header_type (hs ! i) #
                 take (header_length (hs ! i))
                   (drop (sum_list (map header_length (take i hs))) data)))"
    by (simp add: AddRecord_def)
next
  fix v s2 v'
  assume v2: "0 \<le> block_offset v" "block_offset v \<le> kBlockSize"
    and tc2: "type_crc v = type_crc (new_Writer d)"
    and r2: "AddRecord v data = Inr (s2, v')"
    and ls: "map header_length (emitted_headers (new_calls v v')) = map header_length hs"
  let ?hs2 = "emitted_headers (new_calls v v')"
  from ls have len: "length ?hs2 = length hs"
    by (rule map_eq_imp_length_eq)
  have "header_crc (?hs2 ! i) = header_crc (hs ! i)" if i: "i < length hs" for i
  proof -
    have l1: "header_length (?hs2 ! i) = header_length (hs ! i)"
      using ls i len by (metis nth_map)
    have l2: "map header_length (take k ?hs2) = map header_length (take k hs)" for k
      using ls by (simp add: take_map[symmetric])
    have t: "header_type (?hs2 ! i) = header_type (hs ! i)"
      using loop_header_types[OF v, of data True s w' i]
        loop_header_types[OF v2, of data True s2 v' i] r r2 hs i len l2[of "Suc i"]
      by (simp add: AddRecord_def)
    show ?thesis
      using loop_header_crcs[OF v tc, of data True s w' i]
        loop_header_crcs[OF v2 tc2, of data True s2 v' i] r r2 hs i len l1 t l2[of i]
      by (simp add: AddRecord_def)
  qed
  with len show "map header_crc ?hs2 = map header_crc hs"
    by (simp add: list_eq_iff_nth_eq)
qed

text \<open>
  The header of the record \<open>ABC\<close> written by a new writer stores the masked crc32c of
  the four bytes 01 41 42 43.
\<close>

theorem checksum_of_type_and_payload_witness:
  "header_crc
     (emitted_headers
        (new_calls (new_Writer \<lparr>calls = [], script = []\<rparr>)
           (snd (projr (AddRecord (new_Writer \<lparr>calls = [], script = []\<rparr>) [65, 66, 67])))) ! 0)
   = crc32c_Mask (crc32c_Value [1, 65, 66, 67])"
proof -
  let ?w = "new_Writer \<lparr>calls = [], script = []\<rparr>"
  let ?w' = "snd (projr (AddRecord ?w [65, 66, 67]))"
  have v: "0 \<le> block_offset ?w" "block_offset ?w \<le> kBlockSize"
    by (simp_all add: new_Writer_def kBlockSize_def)
  have r: "AddRecord ?w [65, 66, 67] = Inr (OK, ?w')"
    by (simp add: run_simps)
  have n: "0 < length (emitted_headers (new_calls ?w ?w'))"
    by (simp add: run_simps)
  have t: "header_type (emitted_headers (new_calls ?w ?w') ! 0) = 1"
    by (simp add: run_simps)
  have l: "header_length (emitted_headers (new_calls ?w ?w') ! 0) = 3"
    by (simp add: run_simps)
  from checksum_of_type_and_payload[OF v refl r refl] n
  have "header_crc (emitted_headers (new_calls ?w ?w') ! 0) =
     crc32c_Mask (crc32c_Value
       (header_type (emitted_headers (new_calls ?w ?w') ! 0) #
        take (header_length (emitted_headers (new_calls ?w ?w') ! 0))
          (drop (sum_list (map header_length (take 0 (emitted_headers (new_calls ?w ?w')))))
             [65, 66, 67])))"
    by blast
  then show ?thesis
    unfolding t l by simp
qed

text \<open>
  C3 fails on the code: the status of the trailer's \<open>Append\<close> (line 52) is dropped. A
  new writer first writes a record of 32758 bytes, which leaves 3 bytes in the block; the
  file then fails the next call. The second \<open>AddRecord\<close> appends the trailer, which
  fails, goes on to emit its fragment, and returns OK. (For the appends and the flush of
  a physical record the claim holds: \<open>loop_status_is_last_call\<close>.)
\<close>

theorem AddRecord_drops_trailer_error:
  "AddRecord (new_Writer \<lparr>calls = [], script = [OK, OK, OK, IOError ''disk full'']\<rparr>)
     (replicate 32758 0) =
   Inr (OK,
     \<lparr>dest = \<lparr>calls =
         [(AppendCall (EncodeFixed32 (crc32c_Mask (crc32c_Value (1 # replicate 32758 0))) @
             [246, 127, 1]), OK),
          (AppendCall (replicate 32758 0), OK),
          (FlushCall, OK)],
        script = [IOError ''disk full'']\<rparr>,
      block_offset = 32765,
      type_crc = type_crc (new_Writer \<lparr>calls = [], script = []\<rparr>)\<rparr>) \<and>
   AddRecord
     \<lparr>dest = \<lparr>calls =
         [(AppendCall (EncodeFixed32 (crc32c_Mask (crc32c_Value (1 # replicate 32758 0))) @
             [246, 127, 1]), OK),
          (AppendCall (replicate 32758 0), OK),
          (FlushCall, OK)],
        script = [IOError ''disk full'']\<rparr>,
      block_offset = 32765,
      type_crc = type_crc (new_Writer \<lparr>calls = [], script = []\<rparr>)\<rparr>
     [65] =
   Inr (OK,
     \<lparr>dest = \<lparr>calls =
         [(AppendCall (EncodeFixed32 (crc32c_Mask (crc32c_Value (1 # replicate 32758 0))) @
             [246, 127, 1]), OK),
          (AppendCall (replicate 32758 0), OK),
          (FlushCall, OK),
          (AppendCall [0, 0, 0], IOError ''disk full''),
          (AppendCall (EncodeFixed32 (crc32c_Mask (crc32c_Value [1, 65])) @ [1, 0, 1]), OK),
          (AppendCall [65], OK),
          (FlushCall, OK)],
        script = []\<rparr>,
      block_offset = 8,
      type_crc = type_crc (new_Writer \<lparr>calls = [], script = []\<rparr>)\<rparr>)"
  by (simp add: AddRecord_def AddRecord_loop.simps EmitPhysicalRecord_def Append_def
      Flush_def perform_def new_Writer_def kBlockSize_def kHeaderSize_def Let_def len_lo
      drop_bit_eq_div Extend_Value numeral_3_eq_3)

text \<open>
  C4. Every call of \<open>EmitPhysicalRecord\<close> with a fragment of \<open>n\<close> bytes that passes the
  two assertions at its top returns, and leaves the block offset increased by
  \<open>kHeaderSize + n\<close>, whatever status the appends and the flush gave; a call aborts only
  when an assertion fails.
\<close>

theorem EmitPhysicalRecord_advances_block_offset:
  "case EmitPhysicalRecord w t data of
     Inl a \<Rightarrow> \<not> (length data \<le> 0xffff \<and>
                  block_offset w + kHeaderSize + int (length data) \<le> kBlockSize)
   | Inr (s, w') \<Rightarrow> block_offset w' = block_offset w + kHeaderSize + int (length data)"
  by (simp add: EmitPhysicalRecord_def Let_def split: prod.splits)

text \<open>A run whose payload append fails: the offset moves from 0 to 10 all the same.\<close>

theorem EmitPhysicalRecord_advances_block_offset_witness:
  "offset_after (EmitPhysicalRecord
      (new_Writer \<lparr>calls = [], script = [OK, IOError ''disk full'']\<rparr>) kFullType [65, 66, 67])
   = Some 10"
  using EmitPhysicalRecord_advances_block_offset
    [where w = "new_Writer \<lparr>calls = [], script = [OK, IOError ''disk full'']\<rparr>"
       and t = kFullType and data = "[65, 66, 67]"]
  by (simp add: offset_after_def new_Writer_def kHeaderSize_def kBlockSize_def
      split: sum.splits prod.splits)

text \<open>
  C5, as amended. The block offset is 0 at construction, and every call of \<open>AddRecord\<close>
  on a writer whose offset lies in \<open>[0, kBlockSize]\<close> returns, whatever the file
  answers, with the offset again in \<open>[0, kBlockSize]\<close>. The upper bound is not strict:
  a record that ends exactly at the end of a block leaves the offset at \<open>kBlockSize\<close>,
  and the next call starts the new block.
\<close>

theorem block_offset_bounds:
  "block_offset (new_Writer d) = 0 \<and>
   (0 \<le> block_offset w \<and> block_offset w \<le> kBlockSize \<longrightarrow>
    (\<exists>s w'. AddRecord w data = Inr (s, w') \<and>
       0 \<le> block_offset w' \<and> block_offset w' \<le> kBlockSize))"
  using loop_returns[of w data True] by (auto simp add: new_Writer_def AddRecord_def)

text \<open>A call whose header append fails: the offset moves to 10, inside the bounds.\<close>

theorem block_offset_bounds_witness:
  "offset_after
     (AddRecord (new_Writer \<lparr>calls = [], script = [IOError ''disk full'']\<rparr>) [65, 66, 67])
   = Some 10"
  using block_offset_bounds
    [where w = "new_Writer \<lparr>calls = [], script = [IOError ''disk full'']\<rparr>"
       and data = "[65, 66, 67]"]
  by (simp add: run_simps offset_after_def)

text \<open>
  The claim as stated asks for \<open>offset < kBlockSize\<close>. A new writer on a file that
  never fails, given a record of 32761 bytes, ends at offset 32768.
\<close>

theorem block_offset_reaches_kBlockSize:
  "offset_after (AddRecord (new_Writer \<lparr>calls = [], script = []\<rparr>) (replicate 32761 0))
     = Some 32768 \<and> \<not> (32768 < kBlockSize)"
  using exact_fit_offset[of "new_Writer \<lparr>calls = [], script = []\<rparr>" "replicate 32761 0"]
  by (simp add: new_Writer_def kBlockSize_def kHeaderSize_def)

text \<open>
  C6. In an iteration of the loop of \<open>AddRecord\<close> that starts with
  \<open>leftover = kBlockSize - block_offset\<close> below \<open>kHeaderSize\<close>: when \<open>leftover > 0\<close> the
  first call on the file appends exactly \<open>leftover\<close> zero bytes, and when
  \<open>leftover = 0\<close> nothing is appended before the header. The next call appends the
  7-byte header of the fragment, cut for a block that starts at offset 0 (its length
  field is the smaller of what is left to write and \<open>kBlockSize - 0 - kHeaderSize\<close>),
  and the iteration goes on exactly as it would from a writer at offset 0 of a new block.
\<close>

theorem AddRecord_loop_switches_block:
  assumes l: "leftover = kBlockSize - block_offset w"
    and l0: "0 \<le> leftover" and l7: "leftover < kHeaderSize"
  shows "\<exists>s w' pst h st rest.
      AddRecord_loop w ptr b = Inr (s, w') \<and>
      new_calls w w' =
        (if 0 < leftover then [(AppendCall (replicate (nat leftover) 0), pst)] else []) @
        (AppendCall h, st) # rest \<and>
      length h = 7 \<and>
      header_length h = min (length ptr) (nat (kBlockSize - 0 - kHeaderSize)) \<and>
      AddRecord_loop w ptr b =
        AddRecord_loop
          (w\<lparr>dest := (if 0 < leftover
                      then snd (Append (replicate (nat leftover) 0) (dest w)) else dest w),
             block_offset := 0\<rparr>) ptr b"
proof -
  let ?w0 = "w\<lparr>dest := (if 0 < leftover
                      then snd (Append (replicate (nat leftover) 0) (dest w)) else dest w),
             block_offset := 0\<rparr>"
  let ?h = "record_header (after_trailer w) (frag_type b (frag_len w ptr = length ptr))
                   (take (frag_len w ptr) ptr)"
  have v: "0 \<le> block_offset w" "block_offset w \<le> kBlockSize"
    using l l0 l7 by (simp_all add: kBlockSize_def kHeaderSize_def)
  have v0: "0 \<le> block_offset ?w0" "block_offset ?w0 \<le> kBlockSize"
    by (simp_all add: kBlockSize_def)
  have at: "after_trailer w = ?w0"
    using l l7 by (simp add: after_trailer_def)
  have at0: "after_trailer ?w0 = ?w0"
    by (simp add: after_trailer_def kBlockSize_def kHeaderSize_def)
  have fl: "frag_len w ptr = min (length ptr) (nat (kBlockSize - 0 - kHeaderSize))"
    by (simp add: frag_len_def at)
  have fl0: "frag_len ?w0 ptr = frag_len w ptr"
    by (simp add: frag_len_def at at0)
  have eq: "AddRecord_loop w ptr b = AddRecord_loop ?w0 ptr b"
    by (simp only: loop_step[OF v] loop_step[OF v0] at at0 fl0)
  have tc: "trailer_calls w =
     (if 0 < leftover
      then [(AppendCall (replicate (nat leftover) 0),
             fst (Append (replicate (nat leftover) 0) (dest w)))]
      else [])"
    using l l7 by (simp add: trailer_calls_def)
  have "length (take (frag_len w ptr) ptr) \<le> 0xffff"
    using frag_len_fits(2)[OF v, of ptr] by simp
  then have hl: "header_length ?h = min (length ptr) (nat (kBlockSize - 0 - kHeaderSize))"
    using fl frag_len_le[of w ptr] by (simp add: header_length_record_header)
  from loop_first_calls[OF v, of ptr b] obtain s w' st rest where
    "AddRecord_loop w ptr b = Inr (s, w')"
    "new_calls w w' = trailer_calls w @ (AppendCall ?h, st) # rest"
    by blast
  with eq hl show ?thesis
    unfolding tc
    by (intro exI[of _ s] exI[of _ w']
          exI[of _ "fst (Append (replicate (nat leftover) 0) (dest w))"]
          exI[of _ ?h] exI[of _ st] exI[of _ rest])
       (simp add: length_record_header)
qed

text \<open>With 3 bytes left in the block, the first call appends 3 zero bytes.\<close>

theorem AddRecord_loop_switches_block_witness:
  "take 1 (new_calls
      ((new_Writer \<lparr>calls = [], script = []\<rparr>)\<lparr>block_offset := 32765\<rparr>)
      (snd (projr (AddRecord_loop
         ((new_Writer \<lparr>calls = [], script = []\<rparr>)\<lparr>block_offset := 32765\<rparr>) [65] True))))
   = [(AppendCall [0, 0, 0], OK)]"
  using AddRecord_loop_switches_block
    [where w = "(new_Writer \<lparr>calls = [], script = []\<rparr>)\<lparr>block_offset := 32765\<rparr>"
       and leftover = 3 and ptr = "[65]" and b = True]
  by (simp add: run_simps numeral_3_eq_3)

text \<open>
  C7. A call of \<open>AddRecord\<close> with an empty payload, from any block offset in
  \<open>[0, kBlockSize]\<close> and with the checksum table of the constructor, emits exactly one
  header: the masked crc32c of the one byte of the Full tag, the length 0 and the tag
  Full. After the padding of a block switch, if any, its calls are the append of that
  header, the append of an empty payload and the flush, as far as they succeed.
\<close>

theorem AddRecord_empty:
  assumes v: "0 \<le> block_offset w" "block_offset w \<le> kBlockSize"
    and tc: "type_crc w = type_crc (new_Writer d)"
  defines "h \<equiv> EncodeFixed32 (crc32c_Mask (crc32c_Value [of_nat (type_value kFullType)])) @
                 [0, 0, of_nat (type_value kFullType)]"
  shows "\<exists>s w' pad.
      AddRecord w [] = Inr (s, w') \<and>
      emitted_headers (new_calls w w') = [h] \<and>
      (pad = [] \<or> (\<exists>k st. 0 < k \<and> k < 7 \<and> pad = [(AppendCall (replicate k 0), st)])) \<and>
      (new_calls w w' = pad @ [(AppendCall h, s)] \<and> s \<noteq> OK \<or>
       new_calls w w' = pad @ [(AppendCall h, OK), (AppendCall [], s)] \<and> s \<noteq> OK \<or>
       new_calls w w' = pad @ [(AppendCall h, OK), (AppendCall [], OK), (FlushCall, s)])"
proof -
  have fl: "frag_len w [] = 0"
    by (simp add: frag_len_def)
  have h: "record_header (after_trailer w) (frag_type True True) [] = h"
    by (simp add: record_header_def h_def frag_type_def after_trailer_type_crc tc
        new_Writer_def Extend_Nil)
  from loop_returns[OF v, of "[]" True] obtain s w' where
    r: "AddRecord_loop w [] True = Inr (s, w')"
    by blast
  from loop_calls_step[OF v r] obtain cs where
    k: "cs = [(AppendCall h, s)] \<and> s \<noteq> OK \<or>
       cs = [(AppendCall h, OK), (AppendCall [], s)] \<and> s \<noteq> OK \<or>
       cs = [(AppendCall h, OK), (AppendCall [], OK), (FlushCall, s)]"
    and n: "new_calls w w' = trailer_calls w @ cs"
    unfolding fl by (auto simp add: h)
  have lh: "length h = 7"
    by (simp add: h_def length_EncodeFixed32)
  have eh: "emitted_headers (new_calls w w') = [h]"
    unfolding n emitted_headers_trailer by (rule emitted_headers_record(2)[OF lh k])
  have p: "trailer_calls w = [] \<or>
      (\<exists>k st. 0 < k \<and> k < 7 \<and> trailer_calls w = [(AppendCall (replicate k 0), st)])"
  proof (cases "kBlockSize - block_offset w < kHeaderSize \<and> 0 < kBlockSize - block_offset w")
    case True
    then have "0 < nat (kBlockSize - block_offset w) \<and> nat (kBlockSize - block_offset w) < 7"
      by (auto simp add: kHeaderSize_def)
    with True show ?thesis
      by (auto simp add: trailer_calls_def)
  next
    case False
    then show ?thesis
      by (auto simp add: trailer_calls_def)
  qed
  from r eh p k n show ?thesis
    by (intro exI[of _ s] exI[of _ w'] exI[of _ "trailer_calls w"])
       (simp add: AddRecord_def)
qed

text \<open>On a new writer the header is the seven bytes 05 2b 28 43 00 00 01.\<close>

theorem AddRecord_empty_witness:
  "emitted_headers
     (new_calls (new_Writer \<lparr>calls = [], script = []\<rparr>)
        (snd (projr (AddRecord (new_Writer \<lparr>calls = [], script = []\<rparr>) []))))
   = [[5, 43, 40, 67, 0, 0, 1]]"
  using AddRecord_empty
    [where w = "new_Writer \<lparr>calls = [], script = []\<rparr>" and d = "\<lparr>calls = [], script = []\<rparr>"]
  by (simp add: run_simps Extend_Nil masked_crc_Full)

text \<open>
  C8. A call of \<open>AddRecord\<close> whose payload has exactly
  \<open>kBlockSize - block_offset - kHeaderSize\<close> bytes returns with the block offset at
  \<open>kBlockSize\<close>. It emits exactly one header, of type Full, with the payload length in
  its length field, and the calls it makes on the file are the header append, the payload
  append and the flush of that one record (as far as they succeed): no padding is
  written.
\<close>

theorem AddRecord_exact_fit:
  assumes "0 \<le> block_offset w" "block_offset w + kHeaderSize \<le> kBlockSize"
    and "int (length data) = kBlockSize - block_offset w - kHeaderSize"
  shows "\<exists>s w' h. AddRecord w data = Inr (s, w') \<and>
           block_offset w' = kBlockSize \<and>
           emitted_headers (new_calls w w') = [h] \<and>
           header_type h = of_nat (type_value kFullType) \<and>
           header_length h = length data \<and>
           (new_calls w w' = [(AppendCall h, s)] \<and> s \<noteq> OK \<or>
            new_calls w w' = [(AppendCall h, OK), (AppendCall data, s)] \<and> s \<noteq> OK \<or>
            new_calls w w' = [(AppendCall h, OK), (AppendCall data, OK), (FlushCall, s)])"
proof -
  let ?h = "record_header w kFullType data"
  from exact_fit[OF assms, of True] obtain s w' where
    r: "AddRecord_loop w data True = Inr (s, w')"
    and o: "block_offset w' = kBlockSize"
    and k: "new_calls w w' = [(AppendCall ?h, s)] \<and> s \<noteq> OK \<or>
            new_calls w w' = [(AppendCall ?h, OK), (AppendCall data, s)] \<and> s \<noteq> OK \<or>
            new_calls w w' = [(AppendCall ?h, OK), (AppendCall data, OK), (FlushCall, s)]"
    by (auto simp add: frag_type_def)
  have "length data \<le> 0xffff"
    using assms by (simp add: kBlockSize_def kHeaderSize_def)
  then have hl: "header_length ?h = length data"
    by (rule header_length_record_header)
  have eh: "emitted_headers (new_calls w w') = [?h]"
    by (rule emitted_headers_record(2)[OF length_record_header k])
  from r o k hl eh show ?thesis
    by (intro exI[of _ s] exI[of _ w'] exI[of _ ?h])
       (simp add: AddRecord_def header_type_record_header)
qed

theorem AddRecord_exact_fit_witness:
  "offset_after (AddRecord ((new_Writer \<lparr>calls = [], script = []\<rparr>)\<lparr>block_offset := 32758\<rparr>)
      [65, 66, 67]) = Some 32768"
  using AddRecord_exact_fit
    [where w = "(new_Writer \<lparr>calls = [], script = []\<rparr>)\<lparr>block_offset := 32758\<rparr>"
       and data = "[65, 66, 67]"]
  by (auto simp add: offset_after_def new_Writer_def kBlockSize_def kHeaderSize_def)

text \<open>
  C9. In a call of \<open>AddRecord\<close>, the type tag in the header of the \<open>i\<close>-th emitted
  fragment follows from two flags: \<open>begin\<close>, which holds for the first fragment only,
  and \<open>end\<close>, which holds iff the fragments up to this one exhaust the payload (their
  lengths add up to the length of the payload). Both give Full, \<open>begin\<close> alone First,
  \<open>end\<close> alone Last, neither Middle. This holds whatever the file answers.
\<close>

theorem AddRecord_fragment_types:
  assumes "0 \<le> block_offset w" "block_offset w \<le> kBlockSize"
    and "AddRecord w data = Inr (s, w')"
    and "hs = emitted_headers (new_calls w w')"
    and "i < length hs"
    and "is_begin = (i = 0)"
    and "is_end = (sum_list (map header_length (take (Suc i) hs)) = length data)"
  shows "header_type (hs ! i) =
     of_nat (type_value
       (if is_begin \<and> is_end then kFullType
        else if is_begin then kFirstType
        else if is_end then kLastType
        else kMiddleType))"
  using loop_header_types[OF assms(1,2), of data True s w' i] assms(3-)
  by (simp add: AddRecord_def frag_type_def)

text \<open>
  Five bytes written from offset 32758: three fit the block (First), the other two start
  the next block; the second header carries the tag of Last.
\<close>

theorem AddRecord_fragment_types_witness:
  "header_type
     (emitted_headers
        (new_calls ((new_Writer \<lparr>calls = [], script = []\<rparr>)\<lparr>block_offset := 32758\<rparr>)
           (snd (projr (AddRecord
              ((new_Writer \<lparr>calls = [], script = []\<rparr>)\<lparr>block_offset := 32758\<rparr>)
              [65, 66, 67, 68, 69])))) ! 1)
   = of_nat (type_value kLastType)"
  using AddRecord_fragment_types
    [where w = "(new_Writer \<lparr>calls = [], script = []\<rparr>)\<lparr>block_offset := 32758\<rparr>"
       and data = "[65, 66, 67, 68, 69]" and i = 1 and is_begin = False and is_end = True
       and s = OK
       and w' = "snd (projr (AddRecord
              ((new_Writer \<lparr>calls = [], script = []\<rparr>)\<lparr>block_offset := 32758\<rparr>)
              [65, 66, 67, 68, 69]))", OF _ _ _ refl]
  by (simp add: run_simps)

text \<open>
  C10. From any block offset in \<open>[0, kBlockSize]\<close>, a call of \<open>AddRecord\<close> returns: no
  assertion fails, neither the two of the loop nor the two at the top of
  \<open>EmitPhysicalRecord\<close> (\<open>n \<le> 0xffff\<close> and
  \<open>block_offset + kHeaderSize + n \<le> kBlockSize\<close>). The length field of every header
  it emits is at most \<open>kBlockSize - kHeaderSize = 32761\<close>, below \<open>0xffff\<close>, so the
  two bytes of the field hold the fragment length untruncated.
\<close>

theorem AddRecord_fragments_fit:
  assumes "0 \<le> block_offset w" "block_offset w \<le> kBlockSize"
  shows "\<exists>s w'. AddRecord w data = Inr (s, w') \<and>
           (\<forall>h\<in>set (emitted_headers (new_calls w w')). header_length h \<le> 32761)"
proof -
  from loop_returns[OF assms, of data True] obtain s w' where
    r: "AddRecord_loop w data True = Inr (s, w')"
    by blast
  with loop_header_lengths[OF assms r] show ?thesis
    by (auto simp add: AddRecord_def)
qed

text \<open>A record of 70000 bytes, three fragments, passes every assertion.\<close>

theorem AddRecord_fragments_fit_witness:
  "AddRecord (new_Writer \<lparr>calls = [], script = []\<rparr>) (replicate 70000 0) \<noteq> Inl AssertionFailed"
  using AddRecord_fragments_fit
    [where w = "new_Writer \<lparr>calls = [], script = []\<rparr>" and data = "replicate 70000 0"]
  by (auto simp add: new_Writer_def kBlockSize_def)

end
